theory Spec2Isabelle
  imports Main "HOL-Library.Sublist"
begin

section \<open>bintable: a directory format for columnar tables\<close>

text \<open>
  A shallow embedding of \<^verbatim>\<open>bintable.py\<close>: the layout planner of \<^verbatim>\<open>write\<close> (the loop
  over \<^verbatim>\<open>table.colnames\<close>), its file operations on the target directory, and \<^verbatim>\<open>read\<close>
  with its two caches. Serialisation (\<^verbatim>\<open>json.dumps\<close>, \<^verbatim>\<open>np.save\<close>) and parsing
  (\<^verbatim>\<open>json.load\<close>, \<^verbatim>\<open>np.load\<close>) are taken as inverse to each other: a file holds the
  structured value that was stored in it.
\<close>

subsection \<open>Data model\<close>

text \<open>An array element: a number, a string, or a boolean (dtype \<^verbatim>\<open>bool\<close>, also the mask file).\<close>

datatype cell = Num int | Txt string | Bool bool

text \<open>The table's metadata mapping, opaque to the code, as the JSON value it is stored as.\<close>

datatype json = JNull | JBool bool | JNum int | JStr string
  | JArr "json list" | JObj "(string \<times> json) list"

text \<open>
  A column of the in-memory table: \<^verbatim>\<open>col.dtype.char\<close>, \<^verbatim>\<open>str(col.dtype)\<close>,
  \<^verbatim>\<open>col.data\<close>, \<^verbatim>\<open>col.mask\<close> and \<^verbatim>\<open>col.unit\<close> (already as \<^verbatim>\<open>str(col.unit)\<close>).
\<close>

record column =
  cname :: string
  dtype_char :: char
  dtype_str :: string
  cdata :: "cell list"
  cmask :: "bool list"
  cunit :: "string option"

record table =
  tcolumns :: "column list"
  tmeta :: json
  tmasked :: bool

text \<open>An entry of the manifest's \<^verbatim>\<open>columns\<close> list; offsets and lengths are non-negative.\<close>

record colentry =
  e_name :: string
  e_file :: string
  e_offset :: nat
  e_length :: nat
  e_maskoffset :: "nat option"
  e_unit :: "string option"

record manifest =
  m_meta :: json
  m_masked :: bool
  m_columns :: "colentry list"

text \<open>
  What a file of the directory holds. \<open>FPartial\<close> is a file that was created but whose
  writing did not finish; \<open>FOther\<close> is anything that was there before.
\<close>

datatype content = FManifest manifest | FNpy "cell list" | FJson "cell list"
  | FPartial | FOther

text \<open>
  A directory maps the names of its files to their contents. The file system, as far as
  one call sees it, is the directory at \<^verbatim>\<open>path\<close>, or \<open>None\<close> when the path does not exist.
\<close>

type_synonym dir = "string \<Rightarrow> content option"
type_synonym fs = "dir option"

datatype error = AssertionError | FileExistsError | KeyError | FileNotFoundError
  | OSError | BadContent | MaskError

subsection \<open>write: the layout planner\<close>

text \<open>A value of the \<^verbatim>\<open>datafiles\<close> dictionary; \<open>df_datas\<close> is the concatenation of the chunks.\<close>

record datafile =
  df_name :: string
  df_datas :: "cell list"
  df_length :: nat

record plan_state =
  datafiles :: "(string \<times> datafile) list"
  columns :: "colentry list"
  maskdatas :: "bool list list"
  masklength :: nat

text \<open>A Python dictionary in insertion order: assignment to a key keeps its position.\<close>

fun dict_set :: "'k \<Rightarrow> 'v \<Rightarrow> ('k \<times> 'v) list \<Rightarrow> ('k \<times> 'v) list" where
  "dict_set k v [] = [(k, v)]"
| "dict_set k v ((k', v') # kvs) =
     (if k' = k then (k, v) # kvs else (k', v') # dict_set k v kvs)"

definition is_text :: "column \<Rightarrow> bool" where
  "is_text col \<longleftrightarrow> dtype_char col = CHR ''S'' \<or> dtype_char col = CHR ''U''"

definition storage_key :: "column \<Rightarrow> string" where
  "storage_key col = (if is_text col then ''text'' else dtype_str col)"

definition fresh_datafile :: "column \<Rightarrow> datafile" where
  "fresh_datafile col =
     (if is_text col then \<lparr>df_name = ''data.text.json'', df_datas = [], df_length = 0\<rparr>
      else \<lparr>df_name = ''data.'' @ dtype_str col @ ''.npy'', df_datas = [], df_length = 0\<rparr>)"

text \<open>\<^verbatim>\<open>datafiles.setdefault(key, fresh)\<close>: the entry of the key, created when absent.\<close>

definition setdefault :: "column \<Rightarrow> (string \<times> datafile) list \<Rightarrow> datafile" where
  "setdefault col dfs =
     (case map_of dfs (storage_key col) of Some df \<Rightarrow> df | None \<Rightarrow> fresh_datafile col)"

text \<open>One iteration of the loop over the columns (lines 26 to 53).\<close>

definition plan_column :: "bool \<Rightarrow> plan_state \<Rightarrow> column \<Rightarrow> error + plan_state" where
  "plan_column masked st col =
     (if \<not> is_text col \<and> CHR ''<'' \<in> set (dtype_str col) then Inl AssertionError
      else
        let df = setdefault col (datafiles st);
            i = df_length df;
            n = length (cdata col);
            df' = df\<lparr>df_length := i + n, df_datas := df_datas df @ cdata col\<rparr>;
            dfs' = dict_set (storage_key col) df' (datafiles st);
            entry = \<lparr>e_name = cname col, e_file = df_name df, e_offset = i, e_length = n,
                     e_maskoffset = None, e_unit = cunit col\<rparr>
        in if masked \<and> True \<in> set (cmask col) then
             (if length (cmask col) \<noteq> n then Inl AssertionError
              else Inr \<lparr>datafiles = dfs',
                        columns = columns st @ [entry\<lparr>e_maskoffset := Some (masklength st)\<rparr>],
                        maskdatas = maskdatas st @ [cmask col],
                        masklength = masklength st + n\<rparr>)
           else Inr (st\<lparr>datafiles := dfs', columns := columns st @ [entry]\<rparr>))"

fun plan_columns :: "bool \<Rightarrow> plan_state \<Rightarrow> column list \<Rightarrow> error + plan_state" where
  "plan_columns masked st [] = Inr st"
| "plan_columns masked st (col # cols) =
     (case plan_column masked st col of
        Inl e \<Rightarrow> Inl e
      | Inr st' \<Rightarrow> plan_columns masked st' cols)"

definition plan_init :: plan_state where
  "plan_init = \<lparr>datafiles = [], columns = [], maskdatas = [], masklength = 0\<rparr>"

definition plan :: "table \<Rightarrow> error + plan_state" where
  "plan T = plan_columns (tmasked T) plan_init (tcolumns T)"

subsection \<open>write: the file operations\<close>

datatype action = WriteFile string content | Rename string string

definition datafile_action :: "string \<times> datafile \<Rightarrow> action" where
  "datafile_action kv =
     (let df = snd kv in
      if suffix ''.json'' (df_name df) then WriteFile (df_name df) (FJson (df_datas df))
      else WriteFile (df_name df) (FNpy (df_datas df)))"

text \<open>
  The file operations of lines 62 to 85, in program order: the manifest under its temporary
  name, the mask file when \<^verbatim>\<open>maskdatas\<close> is not empty, one file for each entry of
  \<^verbatim>\<open>datafiles\<close>, the rename.
\<close>

definition write_actions :: "table \<Rightarrow> plan_state \<Rightarrow> action list" where
  "write_actions T st =
     [WriteFile ''bintable.json_''
        (FManifest \<lparr>m_meta = tmeta T, m_masked = tmasked T, m_columns = columns st\<rparr>)]
     @ (if maskdatas st \<noteq> [] then [WriteFile ''mask.npy'' (FNpy (map Bool (concat (maskdatas st))))]
        else [])
     @ map datafile_action (datafiles st)
     @ [Rename ''bintable.json_'' ''bintable.json'']"

text \<open>
  One operation that goes through. Directories are flat here: a file name with a path
  separator names a file of a subdirectory, and there is none to create it in.
\<close>

fun exec :: "action \<Rightarrow> dir \<Rightarrow> error + dir" where
  "exec (WriteFile f c) d =
     (if CHR ''/'' \<in> set f then Inl FileNotFoundError else Inr (d(f \<mapsto> c)))"
| "exec (Rename src dst) d =
     (case d src of None \<Rightarrow> Inl FileNotFoundError
      | Some c \<Rightarrow> Inr ((d(src := None))(dst \<mapsto> c)))"

text \<open>
  An operation hit by an I/O failure: a write leaves either nothing new (\<open>created = False\<close>:
  the failure came at opening) or an unfinished file; a failed rename changes nothing.
\<close>

fun exec_failing :: "bool \<Rightarrow> action \<Rightarrow> dir \<Rightarrow> dir" where
  "exec_failing created (WriteFile f c) d = (if created then d(f \<mapsto> FPartial) else d)"
| "exec_failing created (Rename src dst) d = d"

text \<open>
  Running the operations with an optional injected I/O failure \<open>(k, created)\<close> at the
  operation of index \<open>k\<close>. The directory is returned on every path, with the error if any.
\<close>

fun run_actions :: "(nat \<times> bool) option \<Rightarrow> action list \<Rightarrow> dir \<Rightarrow> dir \<times> error option" where
  "run_actions fault [] d = (d, None)"
| "run_actions fault (a # as) d =
     (case fault of
        Some (0, created) \<Rightarrow> (exec_failing created a d, Some OSError)
      | _ \<Rightarrow>
        (case exec a d of
           Inl e \<Rightarrow> (d, Some e)
         | Inr d' \<Rightarrow>
             run_actions (case fault of None \<Rightarrow> None | Some (k, created) \<Rightarrow> Some (k - 1, created))
               as d'))"

text \<open>
  \<^verbatim>\<open>write(table, path)\<close> (\<open>write\<close> is a keyword of Isabelle, hence the name): the file
  system after the call and the exception raised, if any.
  The existence test of lines 56 to 58 names the temporary manifest in both conjuncts.
\<close>

definition write_table :: "table \<Rightarrow> fs \<Rightarrow> (nat \<times> bool) option \<Rightarrow> fs \<times> error option" where
  "write_table T fs fault =
     (case plan T of
        Inl e \<Rightarrow> (fs, Some e)
      | Inr st \<Rightarrow>
         (case fs of
            Some d \<Rightarrow>
              if d ''bintable.json_'' = None \<and> d ''bintable.json_'' = None
              then (fs, Some FileExistsError)
              else (case run_actions fault (write_actions T st) d of (d', r) \<Rightarrow> (Some d', r))
          | None \<Rightarrow>
              (case run_actions fault (write_actions T st) Map.empty of (d', r) \<Rightarrow> (Some d', r))))"

subsection \<open>read\<close>

text \<open>A column handed to the table constructor: the slice, and the mask slice when one was overlaid.\<close>

type_synonym rcolumn = "cell list \<times> bool list option"

record rtable =
  t_names :: "string list"
  t_meta :: json
  t_masked :: bool
  t_data :: "rcolumn list"
  t_units :: "(string \<times> string) list"

text \<open>
  The state of the loop of lines 103 to 139, with the log of the backing files it opened
  (the manifest is not one of them).
\<close>

record read_state =
  backing :: "(string \<times> cell list) list"
  maskedbacking :: "cell list option"
  opened :: "string list"
  r_names :: "string list"
  r_data :: "rcolumn list"
  r_units :: "(string \<times> string) list"

text \<open>\<^verbatim>\<open>np.load\<close> and \<^verbatim>\<open>json.load\<close> of a backing file: whether it was opened, and the outcome.\<close>

definition np_load :: "dir \<Rightarrow> string \<Rightarrow> bool \<times> (error + cell list)" where
  "np_load d f =
     (case d f of
        None \<Rightarrow> (False, Inl FileNotFoundError)
      | Some (FNpy a) \<Rightarrow> (True, Inr a)
      | Some _ \<Rightarrow> (True, Inl BadContent))"

definition json_load :: "dir \<Rightarrow> string \<Rightarrow> bool \<times> (error + cell list)" where
  "json_load d f =
     (case d f of
        None \<Rightarrow> (False, Inl FileNotFoundError)
      | Some (FJson a) \<Rightarrow> (True, Inr a)
      | Some _ \<Rightarrow> (True, Inl BadContent))"

definition log_open :: "bool \<Rightarrow> string \<Rightarrow> read_state \<Rightarrow> read_state" where
  "log_open was_opened f st = (if was_opened then st\<lparr>opened := opened st @ [f]\<rparr> else st)"

text \<open>Lines 105 to 115: fill the cache for the column's file.\<close>

definition open_backing :: "dir \<Rightarrow> read_state \<Rightarrow> colentry \<Rightarrow> read_state \<times> error option" where
  "open_backing d st c =
     (let f = e_file c in
      if map_of (backing st) f \<noteq> None then (st, None)
      else if CHR ''/'' \<in> set f then (st, Some AssertionError)
      else if suffix ''.npy'' f then
        (case np_load d f of
           (opn, Inl e) \<Rightarrow> (log_open opn f st, Some e)
         | (opn, Inr a) \<Rightarrow> ((log_open opn f st)\<lparr>backing := dict_set f a (backing st)\<rparr>, None))
      else if suffix ''.json'' f then
        (case json_load d f of
           (opn, Inl e) \<Rightarrow> (log_open opn f st, Some e)
         | (opn, Inr a) \<Rightarrow> ((log_open opn f st)\<lparr>backing := dict_set f a (backing st)\<rparr>, None))
      else (st, None))"

text \<open>Lines 119 to 122: the mask file, loaded when \<^verbatim>\<open>maskedbacking is None\<close>.\<close>

definition open_mask :: "dir \<Rightarrow> read_state \<Rightarrow> read_state \<times> (error + cell list)" where
  "open_mask d st =
     (case maskedbacking st of
        Some mb \<Rightarrow> (st, Inr mb)
      | None \<Rightarrow>
         (case np_load d ''mask.npy'' of
            (opn, Inl e) \<Rightarrow> (log_open opn ''mask.npy'' st, Inl e)
          | (opn, Inr mb) \<Rightarrow> ((log_open opn ''mask.npy'' st)\<lparr>maskedbacking := Some mb\<rparr>, Inr mb)))"

text \<open>A Python slice \<^verbatim>\<open>a[off : off + len]\<close> with non-negative bounds.\<close>

definition slice :: "nat \<Rightarrow> nat \<Rightarrow> 'a list \<Rightarrow> 'a list" where
  "slice off len xs = take len (drop off xs)"

text \<open>
  \<^verbatim>\<open>np.ma.masked_array(a, m)\<close>: the mask is a boolean array of the shape of the data. The
  coercion numpy applies to a mask that is not boolean is left out: such a mask is an error.
\<close>

fun as_mask :: "cell list \<Rightarrow> bool list option" where
  "as_mask [] = Some []"
| "as_mask (Bool b # cs) = (case as_mask cs of None \<Rightarrow> None | Some bs \<Rightarrow> Some (b # bs))"
| "as_mask (_ # cs) = None"

definition masked_array :: "cell list \<Rightarrow> cell list \<Rightarrow> error + rcolumn" where
  "masked_array a m =
     (case as_mask m of
        None \<Rightarrow> Inl MaskError
      | Some bs \<Rightarrow> if length bs = length a then Inr (a, Some bs) else Inl MaskError)"

text \<open>Lines 129 to 139: append the column's data and record its unit.\<close>

definition finish_column :: "read_state \<Rightarrow> colentry \<Rightarrow> rcolumn \<Rightarrow> read_state" where
  "finish_column st c a =
     (let st' = st\<lparr>r_data := r_data st @ [a]\<rparr> in
      case e_unit c of
        None \<Rightarrow> st'
      | Some u \<Rightarrow> st'\<lparr>r_units := dict_set (e_name c) u (r_units st')\<rparr>)"

text \<open>One iteration of the loop over the requested columns.\<close>

definition read_column :: "dir \<Rightarrow> read_state \<Rightarrow> colentry \<Rightarrow> read_state \<times> error option" where
  "read_column d st c =
     (case open_backing d (st\<lparr>r_names := r_names st @ [e_name c]\<rparr>) c of
        (st1, Some e) \<Rightarrow> (st1, Some e)
      | (st1, None) \<Rightarrow>
         (case map_of (backing st1) (e_file c) of
            None \<Rightarrow> (st1, Some KeyError)
          | Some arr \<Rightarrow>
             let a = slice (e_offset c) (e_length c) arr in
             (case e_maskoffset c of
                None \<Rightarrow> (finish_column st1 c (a, None), None)
              | Some mo \<Rightarrow>
                 (case open_mask d st1 of
                    (st2, Inl e) \<Rightarrow> (st2, Some e)
                  | (st2, Inr mb) \<Rightarrow>
                     (case masked_array a (slice mo (e_length c) mb) of
                        Inl e \<Rightarrow> (st2, Some e)
                      | Inr ma \<Rightarrow> (finish_column st2 c ma, None))))))"

fun read_columns :: "dir \<Rightarrow> read_state \<Rightarrow> colentry list \<Rightarrow> read_state \<times> error option" where
  "read_columns d st [] = (st, None)"
| "read_columns d st (c # cs) =
     (case read_column d st c of
        (st', Some e) \<Rightarrow> (st', Some e)
      | (st', None) \<Rightarrow> read_columns d st' cs)"

definition read_init :: read_state where
  "read_init = \<lparr>backing = [], maskedbacking = None, opened = [],
                r_names = [], r_data = [], r_units = []\<rparr>"

text \<open>
  Lines 98 to 100: \<^verbatim>\<open>coldict\<close> keeps the last entry of a name; a requested name that is
  not a key raises \<^verbatim>\<open>KeyError\<close>.
\<close>

fun last_entry :: "colentry list \<Rightarrow> string \<Rightarrow> colentry option" where
  "last_entry [] n = None"
| "last_entry (c # cs) n =
     (case last_entry cs n of
        Some c' \<Rightarrow> Some c'
      | None \<Rightarrow> if e_name c = n then Some c else None)"

fun select_columns :: "colentry list \<Rightarrow> string list \<Rightarrow> error + colentry list" where
  "select_columns cols [] = Inr []"
| "select_columns cols (n # ns) =
     (case last_entry cols n of
        None \<Rightarrow> Inl KeyError
      | Some c \<Rightarrow>
         (case select_columns cols ns of Inl e \<Rightarrow> Inl e | Inr cs \<Rightarrow> Inr (c # cs)))"

definition dir_of :: "fs \<Rightarrow> dir" where
  "dir_of fs = (case fs of Some d \<Rightarrow> d | None \<Rightarrow> Map.empty)"

definition load_manifest :: "fs \<Rightarrow> error + manifest" where
  "load_manifest fs =
     (case fs of
        None \<Rightarrow> Inl FileNotFoundError
      | Some d \<Rightarrow>
         (case d ''bintable.json'' of
            None \<Rightarrow> Inl FileNotFoundError
          | Some (FManifest m) \<Rightarrow> Inr m
          | Some _ \<Rightarrow> Inl BadContent))"

text \<open>The columns of the loop: the whole list, or the requested ones in the requested order.\<close>

definition requested_columns :: "manifest \<Rightarrow> string list option \<Rightarrow> error + colentry list" where
  "requested_columns m only_columns =
     (case only_columns of
        None \<Rightarrow> Inr (m_columns m)
      | Some ns \<Rightarrow> select_columns (m_columns m) ns)"

text \<open>
  \<^verbatim>\<open>read(path, only_columns=...)\<close>: the backing files opened, in order, and the table (as
  the arguments given to the table constructor, with the units set afterwards) or the
  exception. The assertion of line 144 is checked for every recorded unit. The call has no
  operation that writes: the file system is an argument of \<open>read\<close> and no part of its result.
\<close>

definition read :: "fs \<Rightarrow> string list option \<Rightarrow> string list \<times> (error + rtable)" where
  "read fs only_columns =
     (case load_manifest fs of
        Inl e \<Rightarrow> ([], Inl e)
      | Inr m \<Rightarrow>
         (case requested_columns m only_columns of
            Inl e \<Rightarrow> ([], Inl e)
          | Inr cols \<Rightarrow>
             (case read_columns (dir_of fs) read_init cols of
                (st, Some e) \<Rightarrow> (opened st, Inl e)
              | (st, None) \<Rightarrow>
                 if list_all (\<lambda>ku. fst ku \<in> set (r_names st)) (r_units st)
                 then (opened st,
                       Inr \<lparr>t_names = r_names st, t_meta = m_meta m, t_masked = m_masked m,
                            t_data = r_data st, t_units = r_units st\<rparr>)
                 else (opened st, Inl AssertionError))))"

text \<open>
  The table the constructor builds: a column without a mask array has no invalid entry.
\<close>

definition column_values :: "rcolumn \<Rightarrow> cell list" where
  "column_values a = fst a"

definition column_mask :: "rcolumn \<Rightarrow> bool list" where
  "column_mask a = (case snd a of None \<Rightarrow> replicate (length (fst a)) False | Some m \<Rightarrow> m)"

definition invalid_count :: "rcolumn \<Rightarrow> nat" where
  "invalid_count a = length (filter (\<lambda>b. b) (column_mask a))"

definition unit_of :: "rtable \<Rightarrow> string \<Rightarrow> string option" where
  "unit_of R n = map_of (t_units R) n"

subsection \<open>Notions used in the proofs\<close>

text \<open>
  What the reader's two caches stand for. \<open>load_file\<close> is what opening the backing file of a
  name gives (whether the file was opened, and its array or the error), \<open>load_backing\<close>
  adds the assertion of line 106, and \<open>column_result\<close> is the column that one iteration
  of the loop appends, as a function of the directory alone.
\<close>

definition load_file :: "dir \<Rightarrow> string \<Rightarrow> bool \<times> (error + cell list)" where
  "load_file d f =
     (if suffix ''.npy'' f then np_load d f
      else if suffix ''.json'' f then json_load d f
      else (False, Inl KeyError))"

definition load_backing :: "dir \<Rightarrow> string \<Rightarrow> error + cell list" where
  "load_backing d f =
     (if CHR ''/'' \<in> set f then Inl AssertionError else snd (load_file d f))"

definition column_result :: "dir \<Rightarrow> colentry \<Rightarrow> error + rcolumn" where
  "column_result d c =
     (case load_backing d (e_file c) of
        Inl e \<Rightarrow> Inl e
      | Inr arr \<Rightarrow>
         (case e_maskoffset c of
            None \<Rightarrow> Inr (slice (e_offset c) (e_length c) arr, None)
          | Some mo \<Rightarrow>
             (case snd (np_load d ''mask.npy'') of
                Inl e \<Rightarrow> Inl e
              | Inr mb \<Rightarrow>
                 masked_array (slice (e_offset c) (e_length c) arr) (slice mo (e_length c) mb))))"

fun column_results :: "dir \<Rightarrow> colentry list \<Rightarrow> error + rcolumn list" where
  "column_results d [] = Inr []"
| "column_results d (c # cs) =
     (case column_result d c of
        Inl e \<Rightarrow> Inl e
      | Inr a \<Rightarrow> (case column_results d cs of Inl e \<Rightarrow> Inl e | Inr as \<Rightarrow> Inr (a # as)))"

text \<open>The caches hold what the files hold.\<close>

definition cache_ok :: "dir \<Rightarrow> read_state \<Rightarrow> bool" where
  "cache_ok d st \<longleftrightarrow>
     (\<forall>f a. map_of (backing st) f = Some a \<longrightarrow> load_backing d f = Inr a)
     \<and> (\<forall>mb. maskedbacking st = Some mb \<longrightarrow> snd (np_load d ''mask.npy'') = Inr mb)"

text \<open>\<^verbatim>\<open>units[column["name"]] = unit\<close>, for a column that has a unit.\<close>

definition add_unit :: "colentry \<Rightarrow> (string \<times> string) list \<Rightarrow> (string \<times> string) list" where
  "add_unit c us = (case e_unit c of None \<Rightarrow> us | Some u \<Rightarrow> dict_set (e_name c) u us)"

text \<open>No name in the log or in the cache has a path separator.\<close>

definition bare_ok :: "read_state \<Rightarrow> bool" where
  "bare_ok st \<longleftrightarrow>
     (\<forall>f\<in>set (opened st). CHR ''/'' \<notin> set f)
     \<and> (\<forall>f a. map_of (backing st) f = Some a \<longrightarrow> CHR ''/'' \<notin> set f)"

text \<open>A file of the log is in its cache, so it is not opened again.\<close>

definition log_ok :: "read_state \<Rightarrow> bool" where
  "log_ok st \<longleftrightarrow>
     distinct (opened st)
     \<and> (\<forall>f\<in>set (opened st).
          if f = ''mask.npy'' then maskedbacking st \<noteq> None else map_of (backing st) f \<noteq> None)"

text \<open>The mask file, for a column that refers to it.\<close>

definition mask_files :: "colentry \<Rightarrow> string set" where
  "mask_files c = (if e_maskoffset c = None then {} else {''mask.npy''})"

text \<open>
  The layout in closed form. For the columns \<open>cols\<close> of a table, in order: the rows, the
  data and the file of a storage-type key, the rows of the columns that carry a mask, and
  the manifest entry expected for the column of index \<open>j\<close>.
\<close>

definition has_mask :: "bool \<Rightarrow> column \<Rightarrow> bool" where
  "has_mask masked c \<longleftrightarrow> masked \<and> True \<in> set (cmask c)"

definition rows :: "column \<Rightarrow> nat" where
  "rows c = length (cdata c)"

definition key_rows :: "string \<Rightarrow> column list \<Rightarrow> nat" where
  "key_rows k cols = sum_list (map rows (filter (\<lambda>c. storage_key c = k) cols))"

definition key_data :: "string \<Rightarrow> column list \<Rightarrow> cell list" where
  "key_data k cols = concat (map cdata (filter (\<lambda>c. storage_key c = k) cols))"

fun key_file :: "string \<Rightarrow> column list \<Rightarrow> string" where
  "key_file k [] = []"
| "key_file k (c # cs) =
     (if storage_key c = k then df_name (fresh_datafile c) else key_file k cs)"

definition mask_rows :: "bool \<Rightarrow> column list \<Rightarrow> nat" where
  "mask_rows masked cols = sum_list (map rows (filter (has_mask masked) cols))"

definition mask_data :: "bool \<Rightarrow> column list \<Rightarrow> bool list" where
  "mask_data m cols = concat (map cmask (filter (has_mask m) cols))"

definition expected_entry :: "bool \<Rightarrow> column list \<Rightarrow> nat \<Rightarrow> colentry" where
  "expected_entry masked cols j =
     (let c = cols ! j in
      \<lparr>e_name = cname c, e_file = key_file (storage_key c) cols,
       e_offset = key_rows (storage_key c) (take j cols), e_length = rows c,
       e_maskoffset = (if has_mask masked c then Some (mask_rows masked (take j cols)) else None),
       e_unit = cunit c\<rparr>)"

text \<open>The invariant of the planner's loop, after the columns \<open>cols\<close>.\<close>

definition plan_inv :: "bool \<Rightarrow> column list \<Rightarrow> plan_state \<Rightarrow> bool" where
  "plan_inv masked cols st \<longleftrightarrow>
     columns st = map (expected_entry masked cols) [0..<length cols]
     \<and> maskdatas st = map cmask (filter (has_mask masked) cols)
     \<and> masklength st = mask_rows masked cols
     \<and> distinct (map fst (datafiles st))
     \<and> fst ` set (datafiles st) = storage_key ` set cols
     \<and> (\<forall>k df. map_of (datafiles st) k = Some df \<longrightarrow>
           df_name df = key_file k cols \<and> df_datas df = key_data k cols
           \<and> df_length df = key_rows k cols)
     \<and> (\<forall>c\<in>set cols. has_mask masked c \<longrightarrow> length (cmask c) = rows c)"

text \<open>
  The total length of the entries before index \<open>j\<close> that satisfy \<open>P\<close>, and the half-open
  ranges an entry occupies in its backing file and in the mask buffer.
\<close>

definition earlier_total :: "(colentry \<Rightarrow> bool) \<Rightarrow> colentry list \<Rightarrow> nat \<Rightarrow> nat" where
  "earlier_total P cs j = sum_list (map e_length (filter P (take j cs)))"

definition data_range :: "colentry \<Rightarrow> nat set" where
  "data_range e = {e_offset e ..< e_offset e + e_length e}"

definition mask_range :: "colentry \<Rightarrow> nat set" where
  "mask_range e = (case e_maskoffset e of None \<Rightarrow> {} | Some mo \<Rightarrow> {mo ..< mo + e_length e})"

text \<open>What lines 69 to 84 write: the mask file, then the file of each storage-type key.\<close>

definition file_content :: "datafile \<Rightarrow> content" where
  "file_content df =
     (if suffix ''.json'' (df_name df) then FJson (df_datas df) else FNpy (df_datas df))"

definition data_writes :: "plan_state \<Rightarrow> (string \<times> content) list" where
  "data_writes st =
     (if maskdatas st \<noteq> [] then [(''mask.npy'', FNpy (map Bool (concat (maskdatas st))))] else [])
     @ map (\<lambda>kv. (df_name (snd kv), file_content (snd kv))) (datafiles st)"

subsection \<open>Example inputs\<close>

text \<open>
  A table with one \<^verbatim>\<open>int32\<close> column stored big-endian, and the same with a descriptor that
  carries the marker \<^verbatim>\<open><\<close> (as \<^verbatim>\<open>str(dtype)\<close> prints a little-endian type on a
  big-endian host).
\<close>

definition big_endian_table :: table where
  "big_endian_table =
     \<lparr>tcolumns = [\<lparr>cname = ''x'', dtype_char = CHR ''i'', dtype_str = ''>i4'',
                   cdata = [Num 7], cmask = [False], cunit = None\<rparr>],
      tmeta = JObj [], tmasked = False\<rparr>"

definition little_endian_table :: table where
  "little_endian_table =
     \<lparr>tcolumns = [\<lparr>cname = ''x'', dtype_char = CHR ''i'', dtype_str = ''<i4'',
                   cdata = [Num 7], cmask = [False], cunit = None\<rparr>],
      tmeta = JObj [], tmasked = False\<rparr>"

text \<open>A directory that holds something else than a dataset.\<close>

definition foreign_dir :: dir where
  "foreign_dir = [''notes.txt'' \<mapsto> FOther]"

text \<open>
  The dataset of the specification's scenario (three rows; \<^verbatim>\<open>flux\<close> masked at row 2, with
  the unit \<^verbatim>\<open>Jy\<close>), with the floating-point values scaled to integers.
\<close>

definition flux_manifest :: manifest where
  "flux_manifest =
     \<lparr>m_meta = JObj [(''origin'', JStr ''survey'')], m_masked = True,
      m_columns =
        [\<lparr>e_name = ''id'', e_file = ''data.int32.npy'', e_offset = 0, e_length = 3,
          e_maskoffset = None, e_unit = None\<rparr>,
         \<lparr>e_name = ''name'', e_file = ''data.text.json'', e_offset = 0, e_length = 3,
          e_maskoffset = None, e_unit = None\<rparr>,
         \<lparr>e_name = ''flux'', e_file = ''data.float64.npy'', e_offset = 0, e_length = 3,
          e_maskoffset = Some 0, e_unit = Some ''Jy''\<rparr>]\<rparr>"

definition flux_dir :: dir where
  "flux_dir =
     [''bintable.json'' \<mapsto> FManifest flux_manifest,
      ''mask.npy'' \<mapsto> FNpy [Bool False, Bool False, Bool True],
      ''data.int32.npy'' \<mapsto> FNpy [Num 1, Num 2, Num 3],
      ''data.text.json'' \<mapsto> FJson [Txt ''a'', Txt ''b'', Txt ''c''],
      ''data.float64.npy'' \<mapsto> FNpy [Num 15, Num 25, Num 0]]"

text \<open>
  A manifest written by hand: the first column's file is missing, the second column's
  file is named with a path separator.
\<close>

definition nested_manifest :: manifest where
  "nested_manifest =
     \<lparr>m_meta = JObj [], m_masked = False,
      m_columns =
        [\<lparr>e_name = ''a'', e_file = ''gone.npy'', e_offset = 0, e_length = 1,
          e_maskoffset = None, e_unit = None\<rparr>,
         \<lparr>e_name = ''b'', e_file = ''sub/x.npy'', e_offset = 0, e_length = 1,
          e_maskoffset = None, e_unit = None\<rparr>]\<rparr>"

definition nested_dir :: dir where
  "nested_dir = [''bintable.json'' \<mapsto> FManifest nested_manifest]"

text \<open>A manifest written by hand whose column takes its data from the mask file.\<close>

definition mask_as_data_manifest :: manifest where
  "mask_as_data_manifest =
     \<lparr>m_meta = JObj [], m_masked = True,
      m_columns =
        [\<lparr>e_name = ''flag'', e_file = ''mask.npy'', e_offset = 0, e_length = 1,
          e_maskoffset = Some 0, e_unit = None\<rparr>]\<rparr>"

definition mask_as_data_dir :: dir where
  "mask_as_data_dir =
     [''bintable.json'' \<mapsto> FManifest mask_as_data_manifest,
      ''mask.npy'' \<mapsto> FNpy [Bool False]]"

text \<open>
  A masked table of two rows whose first two columns share the storage-type key
  \<^verbatim>\<open>float64\<close>, and the layout the planner computes for it.
\<close>

definition pair_table :: table where
  "pair_table =
     \<lparr>tcolumns =
        [\<lparr>cname = ''a'', dtype_char = CHR ''d'', dtype_str = ''float64'',
          cdata = [Num 1, Num 2], cmask = [False, True], cunit = None\<rparr>,
         \<lparr>cname = ''b'', dtype_char = CHR ''d'', dtype_str = ''float64'',
          cdata = [Num 3, Num 4], cmask = [True, False], cunit = Some ''m''\<rparr>,
         \<lparr>cname = ''s'', dtype_char = CHR ''U'', dtype_str = ''<U1'',
          cdata = [Txt ''x'', Txt ''y''], cmask = [False, False], cunit = None\<rparr>],
      tmeta = JObj [], tmasked = True\<rparr>"

definition pair_layout :: plan_state where
  "pair_layout =
     \<lparr>datafiles =
        [(''float64'', \<lparr>df_name = ''data.float64.npy'',
                        df_datas = [Num 1, Num 2, Num 3, Num 4], df_length = 4\<rparr>),
         (''text'', \<lparr>df_name = ''data.text.json'', df_datas = [Txt ''x'', Txt ''y''],
                     df_length = 2\<rparr>)],
      columns =
        [\<lparr>e_name = ''a'', e_file = ''data.float64.npy'', e_offset = 0, e_length = 2,
          e_maskoffset = Some 0, e_unit = None\<rparr>,
         \<lparr>e_name = ''b'', e_file = ''data.float64.npy'', e_offset = 2, e_length = 2,
          e_maskoffset = Some 2, e_unit = Some ''m''\<rparr>,
         \<lparr>e_name = ''s'', e_file = ''data.text.json'', e_offset = 0, e_length = 2,
          e_maskoffset = None, e_unit = None\<rparr>],
      maskdatas = [[False, True], [True, False]], masklength = 4\<rparr>"

text \<open>The table read back from the scenario's dataset.\<close>

definition flux_read :: rtable where
  "flux_read =
     \<lparr>t_names = [''id'', ''name'', ''flux''],
      t_meta = JObj [(''origin'', JStr ''survey'')], t_masked = True,
      t_data = [([Num 1, Num 2, Num 3], None), ([Txt ''a'', Txt ''b'', Txt ''c''], None),
                ([Num 15, Num 25, Num 0], Some [False, False, True])],
      t_units = [(''flux'', ''Jy'')]\<rparr>"

text \<open>A directory that holds a committed manifest and a temporary one.\<close>

definition stale_dir :: dir where
  "stale_dir = [''bintable.json_'' \<mapsto> FPartial, ''bintable.json'' \<mapsto> FOther]"

section \<open>Properties\<close>

subsection \<open>The planner fails by assertion only\<close>

lemma plan_column_error: "plan_column masked st col = Inl e \<Longrightarrow> e = AssertionError"
  by (auto simp: plan_column_def Let_def split: if_splits)

lemma plan_columns_error: "plan_columns masked st cols = Inl e \<Longrightarrow> e = AssertionError"
  by (induction cols arbitrary: st) (auto split: sum.splits dest: plan_column_error)

lemma plan_error: "plan T = Inl e \<Longrightarrow> e = AssertionError"
  unfolding plan_def by (rule plan_columns_error)

lemma plan_columns_marker:
  "c \<in> set cols \<Longrightarrow> \<not> is_text c \<Longrightarrow> CHR ''<'' \<in> set (dtype_str c)
   \<Longrightarrow> plan_columns masked st cols = Inl AssertionError"
proof (induction cols arbitrary: st)
  case Nil
  then show ?case by simp
next
  case (Cons a cols)
  show ?case
  proof (cases "plan_column masked st a")
    case (Inl e)
    then show ?thesis using plan_column_error[OF Inl] by simp
  next
    case (Inr st')
    then have "a \<noteq> c" using Cons.prems by (auto simp: plan_column_def)
    then have "c \<in> set cols" using Cons.prems by simp
    then show ?thesis using Cons.IH Cons.prems Inr by simp
  qed
qed

lemma big_endian_plan:
  "plan big_endian_table =
     Inr \<lparr>datafiles = [(''>i4'', \<lparr>df_name = ''data.>i4.npy'', df_datas = [Num 7], df_length = 1\<rparr>)],
          columns = [\<lparr>e_name = ''x'', e_file = ''data.>i4.npy'', e_offset = 0, e_length = 1,
                      e_maskoffset = None, e_unit = None\<rparr>],
          maskdatas = [], masklength = 0\<rparr>"
  by (simp add: plan_def big_endian_table_def plan_init_def plan_column_def is_text_def
      setdefault_def storage_key_def fresh_datafile_def)

subsection \<open>C4: the assertion on the type descriptor\<close>

text \<open>
  C4, as stated, fails: the assertion of line 34 looks for the character \<^verbatim>\<open><\<close> only. A
  non-text column whose descriptor is \<^verbatim>\<open>>i4\<close> (big-endian) passes it: the write succeeds
  and produces the data file \<^verbatim>\<open>data.>i4.npy\<close> and the committed manifest.
\<close>

theorem big_endian_marker_accepted:
  "CHR ''>'' \<in> set (dtype_str (hd (tcolumns big_endian_table)))
   \<and> \<not> is_text (hd (tcolumns big_endian_table))
   \<and> snd (write_table big_endian_table None None) = None
   \<and> (case fst (write_table big_endian_table None None) of
        None \<Rightarrow> False
      | Some d \<Rightarrow> d ''data.>i4.npy'' = Some (FNpy [Num 7]) \<and> d ''bintable.json'' \<noteq> None)"
  apply (simp add: write_table_def big_endian_plan write_actions_def datafile_action_def
      suffix_to_prefix)
  apply (simp add: big_endian_table_def is_text_def)
  done

text \<open>
  C4, amended: for every table with a non-text column whose type descriptor contains the
  character \<^verbatim>\<open><\<close>, \<^verbatim>\<open>write\<close> fails with an assertion error and the file system is as
  it was before the call (no file is produced, no directory created), whatever the target
  path holds.
\<close>

theorem write_rejects_lt_marker:
  "c \<in> set (tcolumns T) \<Longrightarrow> \<not> is_text c \<Longrightarrow> CHR ''<'' \<in> set (dtype_str c)
   \<Longrightarrow> write_table T fs fault = (fs, Some AssertionError)"
  by (simp add: write_table_def plan_def plan_columns_marker)

theorem write_rejects_lt_marker_witness:
  "write_table little_endian_table None None = (None, Some AssertionError)"
  using write_rejects_lt_marker
    [of "hd (tcolumns little_endian_table)" little_endian_table None None]
  by (simp add: little_endian_table_def is_text_def)

subsection \<open>C7: the directory existence check\<close>

text \<open>
  C7, as stated, fails: the columns are planned (lines 26 to 53) before the target path is
  looked at (line 55). For a table whose column fails the assertion of line 34 the call
  into an existing directory without the temporary manifest raises an assertion error,
  not an already-exists error, and the call on a path that does not exist does not create it.
\<close>

theorem directory_check_after_planning:
  "foreign_dir ''bintable.json_'' = None
   \<and> write_table little_endian_table (Some foreign_dir) None
       = (Some foreign_dir, Some AssertionError)
   \<and> write_table little_endian_table None None = (None, Some AssertionError)"
  by (simp add: foreign_dir_def write_table_def plan_def little_endian_table_def
      plan_column_def is_text_def)

text \<open>
  C7, amended: for every write call whose target path exists and does not contain the
  temporary manifest name, \<^verbatim>\<open>write\<close> fails and leaves the directory as it was; the error
  is the already-exists error when the table's columns pass the planner's assertions, and
  the assertion error otherwise. If the target path does not exist and the columns pass
  the planner's assertions, \<^verbatim>\<open>write\<close> creates it (also when a later file operation fails).
\<close>

theorem write_directory_check:
  "(d ''bintable.json_'' = None \<longrightarrow>
      write_table T (Some d) fault =
        (Some d, Some (case plan T of Inl e \<Rightarrow> AssertionError | Inr st \<Rightarrow> FileExistsError)))
   \<and> (plan T = Inr st \<longrightarrow> fst (write_table T None fault) \<noteq> None)"
  by (auto simp: write_table_def split: sum.splits prod.splits dest: plan_error)

theorem write_directory_check_witness:
  "write_table big_endian_table (Some foreign_dir) None
     = (Some foreign_dir, Some FileExistsError)
   \<and> fst (write_table big_endian_table None None) \<noteq> None"
  using write_directory_check [of foreign_dir big_endian_table None
      "case plan big_endian_table of Inr st \<Rightarrow> st"]
  by (simp add: foreign_dir_def big_endian_plan)

subsection \<open>Selecting the requested columns\<close>

lemma last_entry_None: "last_entry cols n = None \<longleftrightarrow> n \<notin> e_name ` set cols"
  by (induction cols) (auto split: option.splits)

lemma last_entry_Some: "last_entry cols n = Some c \<Longrightarrow> c \<in> set cols \<and> e_name c = n"
  by (induction cols) (auto split: option.splits if_splits)

lemma select_columns_error: "select_columns cols ns = Inl e \<Longrightarrow> e = KeyError"
  by (induction ns arbitrary: e) (auto split: option.splits sum.splits)

lemma select_columns_absent:
  "n \<in> set ns \<Longrightarrow> n \<notin> e_name ` set cols \<Longrightarrow> select_columns cols ns = Inl KeyError"
proof (induction ns)
  case Nil
  then show ?case by simp
next
  case (Cons a ns)
  show ?case
  proof (cases "a = n")
    case True
    have "last_entry cols n = None" using Cons.prems(2) by (simp add: last_entry_None)
    then show ?thesis using True by simp
  next
    case False
    then have "select_columns cols ns = Inl KeyError" using Cons by simp
    then show ?thesis by (simp split: option.splits)
  qed
qed

lemma select_columns_Inr:
  "select_columns cols ns = Inr cs \<Longrightarrow>
     map e_name cs = ns \<and> set cs \<subseteq> set cols \<and> (\<forall>c\<in>set cs. last_entry cols (e_name c) = Some c)"
proof (induction ns arbitrary: cs)
  case Nil
  then show ?case by simp
next
  case (Cons a ns)
  from Cons.prems obtain c cs' where c: "last_entry cols a = Some c"
    and cs': "select_columns cols ns = Inr cs'" and cs: "cs = c # cs'"
    by (auto split: option.splits sum.splits)
  from last_entry_Some[OF c] have "c \<in> set cols" "e_name c = a" by simp_all
  with Cons.IH[OF cs'] c cs show ?case by auto
qed

lemma select_columns_total:
  "set ns \<subseteq> e_name ` set cols \<Longrightarrow> \<exists>cs. select_columns cols ns = Inr cs"
proof (induction ns)
  case Nil
  then show ?case by simp
next
  case (Cons n ns)
  then obtain cs where cs: "select_columns cols ns = Inr cs" by auto
  have "last_entry cols n \<noteq> None" using Cons.prems by (simp add: last_entry_None)
  then obtain c where "last_entry cols n = Some c" by auto
  then show ?case using cs by simp
qed

subsection \<open>The reader's loop\<close>

lemma log_open_fields:
  "backing (log_open b f st) = backing st"
  "maskedbacking (log_open b f st) = maskedbacking st"
  "r_names (log_open b f st) = r_names st"
  "r_data (log_open b f st) = r_data st"
  "r_units (log_open b f st) = r_units st"
  "opened (log_open b f st) = (if b then opened st @ [f] else opened st)"
  by (simp_all add: log_open_def)

lemma open_backing_cached:
  "map_of (backing st) (e_file c) = Some a \<Longrightarrow> open_backing d st c = (st, None)"
  by (simp add: open_backing_def)

lemma open_backing_slash:
  "map_of (backing st) (e_file c) = None \<Longrightarrow> CHR ''/'' \<in> set (e_file c)
   \<Longrightarrow> open_backing d st c = (st, Some AssertionError)"
  by (simp add: open_backing_def)

lemma open_backing_load:
  "map_of (backing st) (e_file c) = None \<Longrightarrow> CHR ''/'' \<notin> set (e_file c)
   \<Longrightarrow> open_backing d st c =
     (case load_file d (e_file c) of
        (b, Inl e) \<Rightarrow> if e = KeyError then (st, None) else (log_open b (e_file c) st, Some e)
      | (b, Inr a) \<Rightarrow>
          ((log_open b (e_file c) st)\<lparr>backing := dict_set (e_file c) a (backing st)\<rparr>, None))"
  apply (simp add: open_backing_def load_file_def np_load_def json_load_def Let_def)
  apply (simp split: option.splits content.splits)
  done

lemma open_mask_cached:
  "maskedbacking st = Some mb \<Longrightarrow> open_mask d st = (st, Inr mb)"
  by (simp add: open_mask_def)

lemma open_mask_load:
  "maskedbacking st = None \<Longrightarrow> open_mask d st =
     (case np_load d ''mask.npy'' of
        (b, Inl e) \<Rightarrow> (log_open b ''mask.npy'' st, Inl e)
      | (b, Inr mb) \<Rightarrow> ((log_open b ''mask.npy'' st)\<lparr>maskedbacking := Some mb\<rparr>, Inr mb))"
  by (simp add: open_mask_def)

lemma read_column_cases [consumes 1, case_names backing_failed key_error plain mask_failed mask_error masked]:
  assumes "read_column d st c = (st', r)"
  obtains
    st1 e where "open_backing d (st\<lparr>r_names := r_names st @ [e_name c]\<rparr>) c = (st1, Some e)"
      "st' = st1" "r = Some e"
  | st1 where "open_backing d (st\<lparr>r_names := r_names st @ [e_name c]\<rparr>) c = (st1, None)"
      "map_of (backing st1) (e_file c) = None" "st' = st1" "r = Some KeyError"
  | st1 arr where "open_backing d (st\<lparr>r_names := r_names st @ [e_name c]\<rparr>) c = (st1, None)"
      "map_of (backing st1) (e_file c) = Some arr" "e_maskoffset c = None"
      "st' = finish_column st1 c (slice (e_offset c) (e_length c) arr, None)" "r = None"
  | st1 arr mo st2 e where
      "open_backing d (st\<lparr>r_names := r_names st @ [e_name c]\<rparr>) c = (st1, None)"
      "map_of (backing st1) (e_file c) = Some arr" "e_maskoffset c = Some mo"
      "open_mask d st1 = (st2, Inl e)" "st' = st2" "r = Some e"
  | st1 arr mo st2 mb e where
      "open_backing d (st\<lparr>r_names := r_names st @ [e_name c]\<rparr>) c = (st1, None)"
      "map_of (backing st1) (e_file c) = Some arr" "e_maskoffset c = Some mo"
      "open_mask d st1 = (st2, Inr mb)"
      "masked_array (slice (e_offset c) (e_length c) arr) (slice mo (e_length c) mb) = Inl e"
      "st' = st2" "r = Some e"
  | st1 arr mo st2 mb ma where
      "open_backing d (st\<lparr>r_names := r_names st @ [e_name c]\<rparr>) c = (st1, None)"
      "map_of (backing st1) (e_file c) = Some arr" "e_maskoffset c = Some mo"
      "open_mask d st1 = (st2, Inr mb)"
      "masked_array (slice (e_offset c) (e_length c) arr) (slice mo (e_length c) mb) = Inr ma"
      "st' = finish_column st2 c ma" "r = None"
proof -
  let ?st0 = "st\<lparr>r_names := r_names st @ [e_name c]\<rparr>"
  obtain st1 r1 where ob: "open_backing d ?st0 c = (st1, r1)" by (cases "open_backing d ?st0 c")
  show thesis
  proof (cases r1)
    case (Some e)
    then have "st' = st1" "r = Some e" using assms ob by (simp_all add: read_column_def)
    then show thesis using ob Some by (intro that(1)) simp_all
  next
    case None
    show thesis
    proof (cases "map_of (backing st1) (e_file c)")
      case None': None
      then have "st' = st1" "r = Some KeyError" using assms ob None by (simp_all add: read_column_def)
      then show thesis using ob None None' by (intro that(2)) simp_all
    next
      case (Some arr)
      show thesis
      proof (cases "e_maskoffset c")
        case mo: None
        then have "st' = finish_column st1 c (slice (e_offset c) (e_length c) arr, None)" "r = None"
          using assms ob None Some by (simp_all add: read_column_def)
        then show thesis using ob None Some mo by (intro that(3)) simp_all
      next
        case mo: (Some off)
        obtain st2 r2 where om: "open_mask d st1 = (st2, r2)" by (cases "open_mask d st1")
        show thesis
        proof (cases r2)
          case (Inl e)
          then have "st' = st2" "r = Some e"
            using assms ob None Some mo om by (simp_all add: read_column_def)
          then show thesis using ob None Some mo om Inl by (intro that(4)) simp_all
        next
          case (Inr mb)
          show thesis
          proof (cases "masked_array (slice (e_offset c) (e_length c) arr) (slice off (e_length c) mb)")
            case e: (Inl e)
            then have "st' = st2" "r = Some e"
              using assms ob None Some mo om Inr by (simp_all add: read_column_def)
            then show thesis using ob None Some mo om Inr e by (intro that(5)) simp_all
          next
            case ma: (Inr ma)
            then have "st' = finish_column st2 c ma" "r = None"
              using assms ob None Some mo om Inr by (simp_all add: read_column_def)
            then show thesis using ob None Some mo om Inr ma by (intro that(6)) simp_all
          qed
        qed
      qed
    qed
  qed
qed

lemma map_of_dict_set: "map_of (dict_set k v kvs) = (map_of kvs)(k \<mapsto> v)"
  by (induction kvs) (auto simp: fun_eq_iff)

lemma open_backing_fields:
  assumes "open_backing d st c = (st1, r1)"
  shows "r_names st1 = r_names st" "r_data st1 = r_data st" "r_units st1 = r_units st"
    "maskedbacking st1 = maskedbacking st"
proof -
  consider (a) a where "map_of (backing st) (e_file c) = Some a"
    | (b) "map_of (backing st) (e_file c) = None" "CHR ''/'' \<in> set (e_file c)"
    | (c) "map_of (backing st) (e_file c) = None" "CHR ''/'' \<notin> set (e_file c)"
    by (cases "map_of (backing st) (e_file c)") auto
  then have "r_names st1 = r_names st \<and> r_data st1 = r_data st \<and> r_units st1 = r_units st
    \<and> maskedbacking st1 = maskedbacking st"
  proof cases
    case a
    show ?thesis using assms open_backing_cached[OF a, of d] by simp
  next
    case b
    show ?thesis using assms open_backing_slash[OF b, of d] by simp
  next
    case c
    show ?thesis using assms open_backing_load[OF c, of d]
      by (auto simp: log_open_fields split: prod.splits sum.splits if_splits)
  qed
  then show "r_names st1 = r_names st" "r_data st1 = r_data st" "r_units st1 = r_units st"
    "maskedbacking st1 = maskedbacking st" by simp_all
qed

lemma open_backing_cache:
  assumes ok: "cache_ok d st" and ob: "open_backing d st c = (st1, r1)"
  shows "cache_ok d st1"
    and "r1 = Some e \<Longrightarrow> load_backing d (e_file c) = Inl e"
    and "r1 = None \<Longrightarrow> map_of (backing st1) (e_file c) = Some a \<Longrightarrow> load_backing d (e_file c) = Inr a"
    and "r1 = None \<Longrightarrow> map_of (backing st1) (e_file c) = None \<Longrightarrow> load_backing d (e_file c) = Inl KeyError"
proof -
  consider (a) a where "map_of (backing st) (e_file c) = Some a"
    | (b) "map_of (backing st) (e_file c) = None" "CHR ''/'' \<in> set (e_file c)"
    | (c) "map_of (backing st) (e_file c) = None" "CHR ''/'' \<notin> set (e_file c)"
    by (cases "map_of (backing st) (e_file c)") auto
  then have "cache_ok d st1
    \<and> (r1 = Some e \<longrightarrow> load_backing d (e_file c) = Inl e)
    \<and> (r1 = None \<longrightarrow> map_of (backing st1) (e_file c) = Some a \<longrightarrow> load_backing d (e_file c) = Inr a)
    \<and> (r1 = None \<longrightarrow> map_of (backing st1) (e_file c) = None \<longrightarrow> load_backing d (e_file c) = Inl KeyError)"
  proof cases
    case a
    then show ?thesis using ok ob open_backing_cached[OF a, of d]
      by (auto simp: cache_ok_def)
  next
    case b
    then show ?thesis using ok ob open_backing_slash[OF b, of d]
      by (auto simp: load_backing_def)
  next
    case c
    obtain b r where lf: "load_file d (e_file c) = (b, r)" by (cases "load_file d (e_file c)")
    show ?thesis
    proof (cases r)
      case (Inl e')
      show ?thesis
      proof (cases "e' = KeyError")
        case True
        then have "st1 = st" "r1 = None" using ob open_backing_load[OF c, of d] lf Inl by simp_all
        then show ?thesis using ok c lf Inl True by (simp add: load_backing_def)
      next
        case False
        then have "r1 = Some e'" using ob open_backing_load[OF c, of d] lf Inl by simp
        moreover have "st1 = log_open b (e_file c) st"
          using False ob open_backing_load[OF c, of d] lf Inl by simp
        ultimately show ?thesis using ok c lf Inl
          by (simp add: load_backing_def cache_ok_def log_open_fields)
      qed
    next
      case (Inr arr)
      then have st1: "st1 = (log_open b (e_file c) st)\<lparr>backing := dict_set (e_file c) arr (backing st)\<rparr>"
        and "r1 = None" using ob open_backing_load[OF c, of d] lf by simp_all
      moreover have "load_backing d (e_file c) = Inr arr" using c lf Inr by (simp add: load_backing_def)
      ultimately show ?thesis using ok
        by (simp add: cache_ok_def log_open_fields map_of_dict_set)
    qed
  qed
  then show "cache_ok d st1"
    and "r1 = Some e \<Longrightarrow> load_backing d (e_file c) = Inl e"
    and "r1 = None \<Longrightarrow> map_of (backing st1) (e_file c) = Some a \<Longrightarrow> load_backing d (e_file c) = Inr a"
    and "r1 = None \<Longrightarrow> map_of (backing st1) (e_file c) = None \<Longrightarrow> load_backing d (e_file c) = Inl KeyError"
    by simp_all
qed

lemma open_mask_cache:
  assumes "cache_ok d st" and "open_mask d st = (st', r)"
  shows "cache_ok d st'"
    and "r_names st' = r_names st" and "r_data st' = r_data st" and "r_units st' = r_units st"
    and "backing st' = backing st"
    and "snd (np_load d ''mask.npy'') = r"
proof -
  have "cache_ok d st' \<and> r_names st' = r_names st \<and> r_data st' = r_data st
      \<and> r_units st' = r_units st \<and> backing st' = backing st \<and> snd (np_load d ''mask.npy'') = r"
  proof (cases "maskedbacking st")
    case None
    obtain b r' where nl: "np_load d ''mask.npy'' = (b, r')" by (cases "np_load d ''mask.npy''")
    show ?thesis using assms open_mask_load[OF None, of d] nl
      by (cases r') (auto simp: cache_ok_def log_open_fields)
  next
    case (Some mb)
    then show ?thesis using assms open_mask_cached[OF Some, of d] by (auto simp: cache_ok_def)
  qed
  then show "cache_ok d st'"
    and "r_names st' = r_names st" and "r_data st' = r_data st" and "r_units st' = r_units st"
    and "backing st' = backing st"
    and "snd (np_load d ''mask.npy'') = r" by simp_all
qed

lemma finish_column_fields:
  "r_data (finish_column st c a) = r_data st @ [a]"
  "r_names (finish_column st c a) = r_names st"
  "r_units (finish_column st c a) = add_unit c (r_units st)"
  "backing (finish_column st c a) = backing st"
  "maskedbacking (finish_column st c a) = maskedbacking st"
  "opened (finish_column st c a) = opened st"
  by (auto simp: finish_column_def Let_def add_unit_def split: option.splits)

lemma cache_ok_finish: "cache_ok d (finish_column st c a) = cache_ok d st"
  by (simp add: cache_ok_def finish_column_fields)

lemma cache_ok_names: "cache_ok d (st\<lparr>r_names := ns\<rparr>) = cache_ok d st"
  by (simp add: cache_ok_def)

lemma read_column_result:
  assumes rc: "read_column d st c = (st', r)" and ok: "cache_ok d st"
  shows "case column_result d c of
           Inl e \<Rightarrow> r = Some e
         | Inr a \<Rightarrow> r = None \<and> cache_ok d st' \<and> r_data st' = r_data st @ [a]
                    \<and> r_names st' = r_names st @ [e_name c]
                    \<and> r_units st' = add_unit c (r_units st)"
  using rc
proof (cases rule: read_column_cases)
  case (backing_failed st1 e)
  have ok0: "cache_ok d (st\<lparr>r_names := r_names st @ [e_name c]\<rparr>)" using ok by (simp add: cache_ok_names)
  show ?thesis using open_backing_cache(2)[OF ok0 backing_failed(1)] backing_failed(3)
    by (simp add: column_result_def)
next
  case (key_error st1)
  have ok0: "cache_ok d (st\<lparr>r_names := r_names st @ [e_name c]\<rparr>)" using ok by (simp add: cache_ok_names)
  show ?thesis using open_backing_cache(4)[OF ok0 key_error(1) _ key_error(2)] key_error(4)
    by (simp add: column_result_def)
next
  case (plain st1 arr)
  have ok0: "cache_ok d (st\<lparr>r_names := r_names st @ [e_name c]\<rparr>)" using ok by (simp add: cache_ok_names)
  have "load_backing d (e_file c) = Inr arr"
    using open_backing_cache(3)[OF ok0 plain(1) _ plain(2)] by simp
  then show ?thesis using plain open_backing_cache(1)[OF ok0 plain(1)] open_backing_fields[OF plain(1)]
    by (simp add: column_result_def finish_column_fields cache_ok_finish)
next
  case (mask_failed st1 arr mo st2 e)
  have ok0: "cache_ok d (st\<lparr>r_names := r_names st @ [e_name c]\<rparr>)" using ok by (simp add: cache_ok_names)
  have "load_backing d (e_file c) = Inr arr"
    using open_backing_cache(3)[OF ok0 mask_failed(1) _ mask_failed(2)] by simp
  then show ?thesis using mask_failed
      open_mask_cache(6)[OF open_backing_cache(1)[OF ok0 mask_failed(1)] mask_failed(4)]
    by (simp add: column_result_def)
next
  case (mask_error st1 arr mo st2 mb e)
  have ok0: "cache_ok d (st\<lparr>r_names := r_names st @ [e_name c]\<rparr>)" using ok by (simp add: cache_ok_names)
  have "load_backing d (e_file c) = Inr arr"
    using open_backing_cache(3)[OF ok0 mask_error(1) _ mask_error(2)] by simp
  then show ?thesis using mask_error
      open_mask_cache(6)[OF open_backing_cache(1)[OF ok0 mask_error(1)] mask_error(4)]
    by (simp add: column_result_def)
next
  case (masked st1 arr mo st2 mb ma)
  have ok0: "cache_ok d (st\<lparr>r_names := r_names st @ [e_name c]\<rparr>)" using ok by (simp add: cache_ok_names)
  have "load_backing d (e_file c) = Inr arr"
    using open_backing_cache(3)[OF ok0 masked(1) _ masked(2)] by simp
  then show ?thesis using masked
      open_mask_cache[OF open_backing_cache(1)[OF ok0 masked(1)] masked(4)]
      open_backing_fields[OF masked(1)]
    by (simp add: column_result_def finish_column_fields cache_ok_finish)
qed

lemma open_backing_cases [consumes 1, case_names cached slash unknown failed loaded]:
  assumes "open_backing d st c = (st1, r1)"
  obtains
    a where "map_of (backing st) (e_file c) = Some a" "st1 = st" "r1 = None"
  | "map_of (backing st) (e_file c) = None" "CHR ''/'' \<in> set (e_file c)" "st1 = st"
      "r1 = Some AssertionError"
  | "map_of (backing st) (e_file c) = None" "CHR ''/'' \<notin> set (e_file c)" "st1 = st" "r1 = None"
  | b e where "map_of (backing st) (e_file c) = None" "CHR ''/'' \<notin> set (e_file c)"
      "st1 = log_open b (e_file c) st" "r1 = Some e"
  | b a where "map_of (backing st) (e_file c) = None" "CHR ''/'' \<notin> set (e_file c)"
      "st1 = (log_open b (e_file c) st)\<lparr>backing := dict_set (e_file c) a (backing st)\<rparr>" "r1 = None"
proof -
  consider (a) a where "map_of (backing st) (e_file c) = Some a"
    | (b) "map_of (backing st) (e_file c) = None" "CHR ''/'' \<in> set (e_file c)"
    | (c) "map_of (backing st) (e_file c) = None" "CHR ''/'' \<notin> set (e_file c)"
    by (cases "map_of (backing st) (e_file c)") auto
  then show thesis
  proof cases
    case a
    have "st1 = st" "r1 = None" using assms open_backing_cached[OF a, of d] by simp_all
    then show ?thesis using a by (intro that(1)) simp_all
  next
    case b
    have "st1 = st" "r1 = Some AssertionError" using assms open_backing_slash[OF b, of d] by simp_all
    then show ?thesis using b by (intro that(2)) simp_all
  next
    case c
    obtain b r where lf: "load_file d (e_file c) = (b, r)" by (cases "load_file d (e_file c)")
    show ?thesis
    proof (cases r)
      case (Inl e')
      show ?thesis
      proof (cases "e' = KeyError")
        case True
        then have "st1 = st" "r1 = None" using assms open_backing_load[OF c, of d] lf Inl by simp_all
        then show ?thesis using c by (intro that(3)) simp_all
      next
        case False
        then have "st1 = log_open b (e_file c) st" "r1 = Some e'"
          using assms open_backing_load[OF c, of d] lf Inl by simp_all
        then show ?thesis using c by (intro that(4)) simp_all
      qed
    next
      case (Inr arr)
      then have "st1 = (log_open b (e_file c) st)\<lparr>backing := dict_set (e_file c) arr (backing st)\<rparr>"
        "r1 = None" using assms open_backing_load[OF c, of d] lf by simp_all
      then show ?thesis using c by (intro that(5)) simp_all
    qed
  qed
qed

lemma open_mask_cases [consumes 1, case_names cached failed loaded]:
  assumes "open_mask d st = (st2, r)"
  obtains
    mb where "maskedbacking st = Some mb" "st2 = st" "r = Inr mb"
  | b e where "maskedbacking st = None" "st2 = log_open b ''mask.npy'' st" "r = Inl e"
  | b mb where "maskedbacking st = None"
      "st2 = (log_open b ''mask.npy'' st)\<lparr>maskedbacking := Some mb\<rparr>" "r = Inr mb"
proof (cases "maskedbacking st")
  case None
  obtain b r' where nl: "np_load d ''mask.npy'' = (b, r')" by (cases "np_load d ''mask.npy''")
  show ?thesis
  proof (cases r')
    case (Inl e)
    then have "st2 = log_open b ''mask.npy'' st" "r = Inl e"
      using assms open_mask_load[OF None, of d] nl by simp_all
    then show ?thesis using None by (intro that(2)) simp_all
  next
    case (Inr mb)
    then have "st2 = (log_open b ''mask.npy'' st)\<lparr>maskedbacking := Some mb\<rparr>" "r = Inr mb"
      using assms open_mask_load[OF None, of d] nl by simp_all
    then show ?thesis using None by (intro that(3)) simp_all
  qed
next
  case (Some mb)
  then have "st2 = st" "r = Inr mb" using assms open_mask_cached[OF Some, of d] by simp_all
  then show ?thesis using Some by (intro that(1)) simp_all
qed

lemma bare_ok_names: "bare_ok (st\<lparr>r_names := ns\<rparr>) = bare_ok st"
  by (simp add: bare_ok_def)

lemma bare_ok_finish: "bare_ok (finish_column st c a) = bare_ok st"
  by (simp add: bare_ok_def finish_column_fields)

lemma open_backing_bare:
  assumes "open_backing d st c = (st1, r1)" and "bare_ok st"
  shows "bare_ok st1"
  using assms
  by (cases rule: open_backing_cases)
     (auto simp: bare_ok_def log_open_fields map_of_dict_set split: if_splits)

lemma open_mask_bare:
  assumes "open_mask d st = (st2, r)" and "bare_ok st"
  shows "bare_ok st2"
  using assms
  by (cases rule: open_mask_cases) (auto simp: bare_ok_def log_open_fields split: if_splits)

lemma read_column_bare:
  assumes "read_column d st c = (st', r)" and "bare_ok st"
  shows "bare_ok st'"
  using assms(1)
proof (cases rule: read_column_cases)
  case (backing_failed st1 e)
  then show ?thesis using open_backing_bare[OF backing_failed(1)] assms(2) by (simp add: bare_ok_names)
next
  case (key_error st1)
  then show ?thesis using open_backing_bare[OF key_error(1)] assms(2) by (simp add: bare_ok_names)
next
  case (plain st1 arr)
  then show ?thesis using open_backing_bare[OF plain(1)] assms(2)
    by (simp add: bare_ok_names bare_ok_finish)
next
  case (mask_failed st1 arr mo st2 e)
  then show ?thesis using open_mask_bare[OF mask_failed(4) open_backing_bare[OF mask_failed(1)]] assms(2)
    by (simp add: bare_ok_names)
next
  case (mask_error st1 arr mo st2 mb e)
  then show ?thesis using open_mask_bare[OF mask_error(4) open_backing_bare[OF mask_error(1)]] assms(2)
    by (simp add: bare_ok_names)
next
  case (masked st1 arr mo st2 mb ma)
  then show ?thesis using open_mask_bare[OF masked(4) open_backing_bare[OF masked(1)]] assms(2)
    by (simp add: bare_ok_names bare_ok_finish)
qed

lemma read_column_slash:
  assumes "bare_ok st" and "CHR ''/'' \<in> set (e_file c)"
  shows "snd (read_column d st c) = Some AssertionError"
proof -
  have "map_of (backing st) (e_file c) = None"
    using assms by (cases "map_of (backing st) (e_file c)") (auto simp: bare_ok_def)
  then have "open_backing d (st\<lparr>r_names := r_names st @ [e_name c]\<rparr>) c
      = (st\<lparr>r_names := r_names st @ [e_name c]\<rparr>, Some AssertionError)"
    using assms(2) by (intro open_backing_slash) simp_all
  then show ?thesis by (simp add: read_column_def)
qed

lemma read_columns_bare:
  "read_columns d st cs = (st', r) \<Longrightarrow> bare_ok st \<Longrightarrow> bare_ok st'"
proof (induction cs arbitrary: st)
  case Nil
  then show ?case by simp
next
  case (Cons c cs)
  obtain st1 r1 where rc: "read_column d st c = (st1, r1)" by (cases "read_column d st c")
  have b1: "bare_ok st1" using read_column_bare[OF rc Cons.prems(2)] .
  show ?case
  proof (cases r1)
    case None
    then show ?thesis using Cons.IH[OF _ b1] Cons.prems(1) rc by simp
  next
    case (Some e)
    then show ?thesis using Cons.prems(1) rc b1 by simp
  qed
qed

lemma read_columns_slash:
  "c \<in> set cs \<Longrightarrow> CHR ''/'' \<in> set (e_file c) \<Longrightarrow> bare_ok st
   \<Longrightarrow> snd (read_columns d st cs) \<noteq> None"
proof (induction cs arbitrary: st)
  case Nil
  then show ?case by simp
next
  case (Cons a cs)
  obtain st1 r1 where rc: "read_column d st a = (st1, r1)" by (cases "read_column d st a")
  have b1: "bare_ok st1" using read_column_bare[OF rc Cons.prems(3)] .
  show ?case
  proof (cases r1)
    case None
    then have "a \<noteq> c" using read_column_slash[OF Cons.prems(3), of a d] rc Cons.prems(2) by auto
    then have "c \<in> set cs" using Cons.prems(1) by simp
    then show ?thesis using Cons.IH[OF _ Cons.prems(2) b1] rc None by simp
  next
    case (Some e)
    then show ?thesis using rc by simp
  qed
qed

lemma read_columns_append:
  "read_columns d st (xs @ ys) =
     (case read_columns d st xs of
        (st', Some e) \<Rightarrow> (st', Some e)
      | (st', None) \<Rightarrow> read_columns d st' ys)"
  by (induction xs arbitrary: st) (auto split: prod.splits option.splits)

lemma read_columns_first_slash:
  assumes "read_columns d st pre = (st1, None)" and "bare_ok st" and "CHR ''/'' \<in> set (e_file c)"
  shows "snd (read_columns d st (pre @ c # post)) = Some AssertionError"
proof -
  have b1: "bare_ok st1" using read_columns_bare[OF assms(1,2)] .
  obtain st2 r2 where rc: "read_column d st1 c = (st2, r2)" by (cases "read_column d st1 c")
  then have "r2 = Some AssertionError" using read_column_slash[OF b1 assms(3), of d] by simp
  then show ?thesis using assms(1) rc by (simp add: read_columns_append)
qed

lemma log_ok_names: "log_ok (st\<lparr>r_names := ns\<rparr>) = log_ok st"
  by (simp add: log_ok_def)

lemma log_ok_finish: "log_ok (finish_column st c a) = log_ok st"
  by (simp add: log_ok_def finish_column_fields)

lemma open_backing_log:
  assumes "open_backing d st c = (st1, r1)" and "log_ok st" and "e_file c \<noteq> ''mask.npy''"
  shows "distinct (opened st1) \<and> set (opened st1) \<subseteq> set (opened st) \<union> {e_file c}
         \<and> (r1 = None \<longrightarrow> log_ok st1)"
  using assms(1)
proof (cases rule: open_backing_cases)
  case (cached a)
  then show ?thesis using assms(2) by (auto simp: log_ok_def)
next
  case slash
  then show ?thesis using assms(2) by (auto simp: log_ok_def)
next
  case unknown
  then show ?thesis using assms(2) by (auto simp: log_ok_def)
next
  case (failed b e)
  have "e_file c \<notin> set (opened st)" using assms(2,3) failed(1) by (auto simp: log_ok_def)
  then show ?thesis using failed assms(2) by (auto simp: log_ok_def log_open_fields)
next
  case (loaded b a)
  have "e_file c \<notin> set (opened st)" using assms(2,3) loaded(1) by (auto simp: log_ok_def)
  then show ?thesis using loaded assms(2,3)
    by (auto simp: log_ok_def log_open_fields map_of_dict_set)
qed

lemma open_mask_log:
  assumes "open_mask d st = (st2, r)" and "log_ok st"
  shows "distinct (opened st2) \<and> set (opened st2) \<subseteq> set (opened st) \<union> {''mask.npy''}
         \<and> (\<forall>mb. r = Inr mb \<longrightarrow> log_ok st2)"
  using assms(1)
proof (cases rule: open_mask_cases)
  case (cached mb)
  then show ?thesis using assms(2) by (auto simp: log_ok_def)
next
  case (failed b e)
  have "''mask.npy'' \<notin> set (opened st)" using assms(2) failed(1) by (auto simp: log_ok_def)
  then show ?thesis using failed assms(2) by (auto simp: log_ok_def log_open_fields)
next
  case (loaded b mb)
  have "''mask.npy'' \<notin> set (opened st)" using assms(2) loaded(1) by (auto simp: log_ok_def)
  then show ?thesis using loaded assms(2) by (auto simp: log_ok_def log_open_fields)
qed

lemma read_column_log:
  assumes rc: "read_column d st c = (st', r)" and ok: "log_ok st" and f: "e_file c \<noteq> ''mask.npy''"
  shows "distinct (opened st') \<and> set (opened st') \<subseteq> set (opened st) \<union> {e_file c} \<union> mask_files c
         \<and> (r = None \<longrightarrow> log_ok st')"
  using rc
proof (cases rule: read_column_cases)
  case (backing_failed st1 e)
  then show ?thesis using open_backing_log[OF backing_failed(1) _ f] ok
    by (auto simp: log_ok_names)
next
  case (key_error st1)
  then show ?thesis using open_backing_log[OF key_error(1) _ f] ok
    by (auto simp: log_ok_names)
next
  case (plain st1 arr)
  then show ?thesis using open_backing_log[OF plain(1) _ f] ok
    by (auto simp: log_ok_names log_ok_finish finish_column_fields)
next
  case (mask_failed st1 arr mo st2 e)
  have 1: "distinct (opened st1) \<and> set (opened st1) \<subseteq> set (opened st) \<union> {e_file c} \<and> log_ok st1"
    using open_backing_log[OF mask_failed(1) _ f] ok by (simp add: log_ok_names)
  then show ?thesis using open_mask_log[OF mask_failed(4)] mask_failed(3,5,6)
    by (auto simp: mask_files_def)
next
  case (mask_error st1 arr mo st2 mb e)
  have 1: "distinct (opened st1) \<and> set (opened st1) \<subseteq> set (opened st) \<union> {e_file c} \<and> log_ok st1"
    using open_backing_log[OF mask_error(1) _ f] ok by (simp add: log_ok_names)
  then show ?thesis using open_mask_log[OF mask_error(4)] mask_error(3,6,7)
    by (auto simp: mask_files_def)
next
  case (masked st1 arr mo st2 mb ma)
  have 1: "distinct (opened st1) \<and> set (opened st1) \<subseteq> set (opened st) \<union> {e_file c} \<and> log_ok st1"
    using open_backing_log[OF masked(1) _ f] ok by (simp add: log_ok_names)
  then show ?thesis using open_mask_log[OF masked(4)] masked(3,4,6,7)
    by (auto simp: mask_files_def log_ok_finish finish_column_fields)
qed

lemma read_columns_log:
  "read_columns d st cs = (st', r) \<Longrightarrow> log_ok st \<Longrightarrow> \<forall>c\<in>set cs. e_file c \<noteq> ''mask.npy''
   \<Longrightarrow> distinct (opened st')
       \<and> set (opened st') \<subseteq> set (opened st) \<union> e_file ` set cs \<union> \<Union> (mask_files ` set cs)"
proof (induction cs arbitrary: st)
  case Nil
  then show ?case by (simp add: log_ok_def)
next
  case (Cons c cs)
  obtain st1 r1 where rc: "read_column d st c = (st1, r1)" by (cases "read_column d st c")
  have f: "e_file c \<noteq> ''mask.npy''" using Cons.prems(3) by simp
  note step = read_column_log[OF rc Cons.prems(2) f]
  show ?case
  proof (cases r1)
    case None
    then have ok1: "log_ok st1" using step by simp
    have "read_columns d st1 cs = (st', r)" using Cons.prems(1) rc None by simp
    from Cons.IH[OF this ok1] Cons.prems(3) step show ?thesis by auto
  next
    case (Some e)
    then have "st' = st1" using Cons.prems(1) rc by simp
    then show ?thesis using step by auto
  qed
qed

lemma read_columns_result:
  "read_columns d st cs = (st', r) \<Longrightarrow> cache_ok d st \<Longrightarrow>
     (case column_results d cs of
        Inl e \<Rightarrow> r = Some e
      | Inr as \<Rightarrow> r = None \<and> r_data st' = r_data st @ as
                  \<and> r_names st' = r_names st @ map e_name cs
                  \<and> r_units st' = fold add_unit cs (r_units st))"
proof (induction cs arbitrary: st)
  case Nil
  then show ?case by simp
next
  case (Cons c cs)
  obtain st1 r1 where rc: "read_column d st c = (st1, r1)" by (cases "read_column d st c")
  note step = read_column_result[OF rc Cons.prems(2)]
  show ?case
  proof (cases "column_result d c")
    case (Inl e)
    then have "r1 = Some e" using step by simp
    then show ?thesis using Cons.prems(1) rc Inl by simp
  next
    case (Inr a)
    then have s: "r1 = None" "cache_ok d st1" "r_data st1 = r_data st @ [a]"
      "r_names st1 = r_names st @ [e_name c]" "r_units st1 = add_unit c (r_units st)"
      using step by simp_all
    have "read_columns d st1 cs = (st', r)" using Cons.prems(1) rc s(1) by simp
    from Cons.IH[OF this s(2)] show ?thesis using Inr s(3-5)
      by (simp split: sum.splits)
  qed
qed

lemma column_results_Inr:
  "column_results d cs = Inr as \<Longrightarrow> list_all2 (\<lambda>c a. column_result d c = Inr a) cs as"
proof (induction cs arbitrary: as)
  case Nil
  then show ?case by simp
next
  case (Cons c cs)
  from Cons.prems obtain a as' where a: "column_result d c = Inr a"
    and as': "column_results d cs = Inr as'" and as: "as = a # as'"
    by (auto split: sum.splits)
  show ?case using Cons.IH[OF as'] a as by simp
qed

lemma column_results_total:
  "\<forall>c\<in>set cs. \<exists>a. column_result d c = Inr a \<Longrightarrow> \<exists>as. column_results d cs = Inr as"
  by (induction cs) (auto split: sum.splits)

lemma dict_set_keys: "fst ` set (dict_set k v kvs) = insert k (fst ` set kvs)"
  by (simp add: dom_map_of_conv_image_fst[symmetric] map_of_dict_set)

lemma add_unit_keys: "fst ` set (fold add_unit cs us) \<subseteq> fst ` set us \<union> e_name ` set cs"
proof (induction cs arbitrary: us)
  case Nil
  then show ?case by simp
next
  case (Cons c cs)
  have A: "fst ` set (add_unit c us) \<subseteq> insert (e_name c) (fst ` set us)"
    by (cases "e_unit c") (simp_all add: add_unit_def dict_set_keys subset_insertI)
  have B: "fst ` set (fold add_unit cs (add_unit c us)) \<subseteq> fst ` set (add_unit c us) \<union> e_name ` set cs"
    by (rule Cons.IH)
  have "fst ` set (fold add_unit cs (add_unit c us))
      \<subseteq> insert (e_name c) (fst ` set us) \<union> e_name ` set cs"
    using A B by blast
  then show ?case by simp
qed

lemma cache_ok_init: "cache_ok d read_init"
  by (simp add: cache_ok_def read_init_def)

lemma bare_ok_init: "bare_ok read_init"
  by (simp add: bare_ok_def read_init_def)

lemma log_ok_init: "log_ok read_init"
  by (simp add: log_ok_def read_init_def)

lemma read_eq:
  assumes "load_manifest (Some d) = Inr m" and "requested_columns m oc = Inr cs"
  shows "snd (read (Some d) oc) =
     (case column_results d cs of
        Inl e \<Rightarrow> Inl e
      | Inr as \<Rightarrow> Inr \<lparr>t_names = map e_name cs, t_meta = m_meta m, t_masked = m_masked m,
                      t_data = as, t_units = fold add_unit cs []\<rparr>)"
proof -
  obtain st r where rcs: "read_columns d read_init cs = (st, r)"
    by (cases "read_columns d read_init cs")
  note res = read_columns_result[OF rcs cache_ok_init]
  show ?thesis
  proof (cases "column_results d cs")
    case (Inl e)
    then have "r = Some e" using res by simp
    then show ?thesis using assms rcs Inl by (simp add: read_def dir_of_def)
  next
    case (Inr as)
    then have s: "r = None" "r_data st = as" "r_names st = map e_name cs"
      "r_units st = fold add_unit cs []"
      using res by (simp_all add: read_init_def)
    have "fst ` set (r_units st) \<subseteq> set (r_names st)"
      using add_unit_keys[of cs "[]"] s by auto
    then have "list_all (\<lambda>ku. fst ku \<in> set (r_names st)) (r_units st)"
      by (auto simp: list_all_iff)
    then show ?thesis using assms rcs Inr s by (simp add: read_def dir_of_def)
  qed
qed

subsection \<open>The call as a whole\<close>

lemma read_log_eq:
  assumes "load_manifest fs = Inr m" and "requested_columns m oc = Inr cs"
  shows "fst (read fs oc) = opened (fst (read_columns (dir_of fs) read_init cs))"
    and "snd (read fs oc) = Inl AssertionError \<or>
         snd (read fs oc) = (case snd (read_columns (dir_of fs) read_init cs) of
                               Some e \<Rightarrow> Inl e
                             | None \<Rightarrow> snd (read fs oc))"
    and "snd (read_columns (dir_of fs) read_init cs) = Some e \<Longrightarrow> snd (read fs oc) = Inl e"
  using assms by (auto simp: read_def split: prod.splits option.splits)

lemma read_log_empty:
  "load_manifest fs = Inl e \<Longrightarrow> fst (read fs oc) = []"
  "load_manifest fs = Inr m \<Longrightarrow> requested_columns m oc = Inl e \<Longrightarrow> fst (read fs oc) = []"
  by (simp_all add: read_def)

lemma read_Inr_manifest:
  assumes "snd (read fs oc) = Inr R"
  shows "\<exists>m cs. load_manifest fs = Inr m \<and> requested_columns m oc = Inr cs"
  using assms by (auto simp: read_def split: sum.splits)

text \<open>The scenario, evaluated.\<close>

lemma flux_load: "load_manifest (Some flux_dir) = Inr flux_manifest"
  by (simp add: load_manifest_def flux_dir_def)

lemmas read_eval = read_def dir_of_def requested_columns_def read_init_def read_column_def
  open_backing_def open_mask_def np_load_def json_load_def log_open_def slice_def
  masked_array_def finish_column_def suffix_to_prefix Let_def

lemma flux_read_full:
  "read (Some flux_dir) None =
     ([''data.int32.npy'', ''data.text.json'', ''data.float64.npy'', ''mask.npy''],
      Inr \<lparr>t_names = [''id'', ''name'', ''flux''],
           t_meta = JObj [(''origin'', JStr ''survey'')], t_masked = True,
           t_data = [([Num 1, Num 2, Num 3], None), ([Txt ''a'', Txt ''b'', Txt ''c''], None),
                     ([Num 15, Num 25, Num 0], Some [False, False, True])],
           t_units = [(''flux'', ''Jy'')]\<rparr>)"
  by (simp add: read_eval flux_load) (simp add: flux_manifest_def flux_dir_def read_eval)

subsection \<open>C9: a requested name that the manifest does not have\<close>

text \<open>
  C9: for a dataset whose manifest is read, a selective read whose \<^verbatim>\<open>only_columns\<close>
  contains a name that no entry of the manifest has fails with the lookup error
  (\<^verbatim>\<open>KeyError\<close>), before any backing file is opened (the log is empty), and returns no table.
\<close>

theorem read_unknown_column:
  "load_manifest fs = Inr m \<Longrightarrow> n \<in> set ns \<Longrightarrow> n \<notin> e_name ` set (m_columns m)
   \<Longrightarrow> read fs (Some ns) = ([], Inl KeyError)"
  by (simp add: read_def requested_columns_def select_columns_absent)

theorem read_unknown_column_witness:
  "read (Some flux_dir) (Some [''flux'', ''idx'']) = ([], Inl KeyError)"
  using read_unknown_column [of "Some flux_dir" flux_manifest "''idx''" "[''flux'', ''idx'']"]
  by (simp add: flux_load) (simp add: flux_manifest_def)

subsection \<open>C10: path separators in file names\<close>

text \<open>
  C10, as stated, fails: the assertion of line 106 is reached only when the loop reaches
  the column. With an earlier column whose backing file is missing the call ends with
  that column's error (file not found), not with an assertion error.
\<close>

theorem earlier_failure_wins:
  "load_manifest (Some nested_dir) = Inr nested_manifest
   \<and> CHR ''/'' \<in> set (e_file (m_columns nested_manifest ! 1))
   \<and> read (Some nested_dir) None = ([], Inl FileNotFoundError)"
  by (simp add: load_manifest_def nested_dir_def read_eval)
     (simp add: nested_manifest_def read_eval)

text \<open>
  C10, amended: every backing file that \<^verbatim>\<open>read\<close> opens is addressed by a name without a
  path separator; and when the file field of some requested column contains one, the call
  fails without opening that file, with the assertion error if the columns requested
  before it were read without error (otherwise with the error of the first of those that
  failed).
\<close>

theorem read_path_separator:
  "(\<forall>f\<in>set (fst (read fs oc)). CHR ''/'' \<notin> set f)
   \<and> (load_manifest fs = Inr m \<and> requested_columns m oc = Inr (pre @ c # post)
        \<and> CHR ''/'' \<in> set (e_file c) \<longrightarrow>
        (\<exists>e. snd (read fs oc) = Inl e)
        \<and> (snd (read_columns (dir_of fs) read_init pre) = None \<longrightarrow>
             snd (read fs oc) = Inl AssertionError))"
proof -
  have bare: "\<forall>f\<in>set (fst (read fs oc)). CHR ''/'' \<notin> set f"
  proof (cases "load_manifest fs")
    case (Inl e)
    then show ?thesis by (simp add: read_log_empty)
  next
    case (Inr m')
    show ?thesis
    proof (cases "requested_columns m' oc")
      case (Inl e)
      then show ?thesis using Inr by (simp add: read_log_empty)
    next
      case cs: (Inr cs)
      obtain st r where rcs: "read_columns (dir_of fs) read_init cs = (st, r)"
        by (cases "read_columns (dir_of fs) read_init cs")
      have "bare_ok st" using read_columns_bare[OF rcs bare_ok_init] .
      then show ?thesis using read_log_eq(1)[OF Inr cs] rcs by (simp add: bare_ok_def)
    qed
  qed
  have fails: "(\<exists>e. snd (read fs oc) = Inl e)
        \<and> (snd (read_columns (dir_of fs) read_init pre) = None \<longrightarrow>
             snd (read fs oc) = Inl AssertionError)"
    if m: "load_manifest fs = Inr m" and cs: "requested_columns m oc = Inr (pre @ c # post)"
      and sl: "CHR ''/'' \<in> set (e_file c)"
  proof -
    have "snd (read_columns (dir_of fs) read_init (pre @ c # post)) \<noteq> None"
      using read_columns_slash[OF _ sl bare_ok_init, of "pre @ c # post" "dir_of fs"] by simp
    then obtain e where "snd (read_columns (dir_of fs) read_init (pre @ c # post)) = Some e"
      by auto
    then have 1: "snd (read fs oc) = Inl e" using read_log_eq(3)[OF m cs] by simp
    have 2: "snd (read fs oc) = Inl AssertionError"
      if pre_ok: "snd (read_columns (dir_of fs) read_init pre) = None"
    proof -
      have "read_columns (dir_of fs) read_init pre
          = (fst (read_columns (dir_of fs) read_init pre), None)"
        using pre_ok by (simp add: prod_eq_iff)
      from read_columns_first_slash[OF this bare_ok_init sl, of post]
      show ?thesis using read_log_eq(3)[OF m cs] by simp
    qed
    show ?thesis using 1 2 by blast
  qed
  show ?thesis using bare fails by blast
qed

theorem read_path_separator_witness:
  "read (Some nested_dir) (Some [''b'', ''a'']) = ([], Inl AssertionError)"
proof -
  have m: "load_manifest (Some nested_dir) = Inr nested_manifest"
    by (simp add: load_manifest_def nested_dir_def)
  have cs: "requested_columns nested_manifest (Some [''b'', ''a''])
      = Inr ([] @ (m_columns nested_manifest ! 1) # [m_columns nested_manifest ! 0])"
    by (simp add: requested_columns_def nested_manifest_def)
  have sl: "CHR ''/'' \<in> set (e_file (m_columns nested_manifest ! 1))"
    by (simp add: nested_manifest_def)
  have "snd (read (Some nested_dir) (Some [''b'', ''a''])) = Inl AssertionError"
    using read_path_separator [of "Some nested_dir" "Some [''b'', ''a'']" nested_manifest "[]"
        "m_columns nested_manifest ! 1" "[m_columns nested_manifest ! 0]"] m cs sl
    by simp
  moreover have "fst (read (Some nested_dir) (Some [''b'', ''a''])) = []"
    by (simp add: read_eval m cs) (simp add: nested_manifest_def read_eval)
  ultimately show ?thesis by (simp add: prod_eq_iff)
qed

subsection \<open>C8: each backing file is opened once\<close>

text \<open>
  C8, as stated, fails: the cache of the data files (\<^verbatim>\<open>backing\<close>) and the cache of the
  mask file (\<^verbatim>\<open>maskedbacking\<close>) are separate. For a manifest whose column names
  \<^verbatim>\<open>mask.npy\<close> as its data file and has a mask offset, the file is opened twice in one call.
\<close>

theorem mask_file_opened_twice:
  "read (Some mask_as_data_dir) None =
     ([''mask.npy'', ''mask.npy''],
      Inr \<lparr>t_names = [''flag''], t_meta = JObj [], t_masked = True,
           t_data = [([Bool False], Some [False])], t_units = []\<rparr>)"
  by (simp add: load_manifest_def mask_as_data_dir_def read_eval)
     (simp add: mask_as_data_manifest_def read_eval)

text \<open>
  C8, amended: within one call of \<^verbatim>\<open>read\<close> in which no requested column names
  \<^verbatim>\<open>mask.npy\<close> as its data file (so for every manifest that \<^verbatim>\<open>write\<close> produces, whose
  data files are named \<^verbatim>\<open>data.*\<close>), each backing file, the mask file included, is
  opened at most once, and every file opened is the data file of a requested column or the
  mask file of a requested column with a mask offset. The call writes nothing: \<open>read\<close> is
  a function of the file system and returns none.
\<close>

theorem read_opens_once:
  assumes "load_manifest fs = Inr m" and "requested_columns m oc = Inr cs"
    and "\<forall>c\<in>set cs. e_file c \<noteq> ''mask.npy''"
  shows "distinct (fst (read fs oc))
         \<and> set (fst (read fs oc)) \<subseteq> e_file ` set cs \<union> \<Union> (mask_files ` set cs)"
proof -
  obtain st r where rcs: "read_columns (dir_of fs) read_init cs = (st, r)"
    by (cases "read_columns (dir_of fs) read_init cs")
  from read_columns_log[OF rcs log_ok_init assms(3)] read_log_eq(1)[OF assms(1,2)] rcs
  show ?thesis by (simp add: read_init_def)
qed

theorem read_opens_once_witness:
  "distinct (fst (read (Some flux_dir) None))
   \<and> set (fst (read (Some flux_dir) None))
       \<subseteq> {''mask.npy'', ''data.int32.npy'', ''data.text.json'', ''data.float64.npy''}"
  using read_opens_once [of "Some flux_dir" flux_manifest None "m_columns flux_manifest"]
  by (simp add: flux_load requested_columns_def)
     (simp add: flux_manifest_def mask_files_def)

subsection \<open>C6: reading a subset of the columns\<close>

text \<open>
  C6: for a dataset that \<^verbatim>\<open>read(path)\<close> reads in full, with distinct column names, and a
  list \<open>ns\<close> of distinct names among them, \<^verbatim>\<open>read(path, only_columns=ns)\<close> returns a
  table whose columns are named \<open>ns\<close>, in that order, each with the values (and the mask)
  of the column of the same name in the full table.
\<close>

theorem selective_read:
  assumes full: "read (Some d) None = (log, Inr R)"
    and dn: "distinct (t_names R)" and ds: "distinct ns" and sub: "set ns \<subseteq> set (t_names R)"
  shows "\<exists>log' R'. read (Some d) (Some ns) = (log', Inr R') \<and> t_names R' = ns
           \<and> length (t_data R') = length ns
           \<and> (\<forall>i<length ns. \<forall>j<length (t_names R). t_names R ! j = ns ! i \<longrightarrow>
                 column_values (t_data R' ! i) = column_values (t_data R ! j)
                 \<and> column_mask (t_data R' ! i) = column_mask (t_data R ! j))"
proof -
  have sR: "snd (read (Some d) None) = Inr R" using full by simp
  from read_Inr_manifest[OF sR] obtain m where m: "load_manifest (Some d) = Inr m" by auto
  let ?cols = "m_columns m"
  have req: "requested_columns m None = Inr ?cols" by (simp add: requested_columns_def)
  from read_eq[OF m req] sR obtain as where as: "column_results d ?cols = Inr as"
    and R: "R = \<lparr>t_names = map e_name ?cols, t_meta = m_meta m, t_masked = m_masked m,
                 t_data = as, t_units = fold add_unit ?cols []\<rparr>"
    by (auto split: sum.splits)
  have all2: "list_all2 (\<lambda>c a. column_result d c = Inr a) ?cols as"
    using column_results_Inr[OF as] .
  have len: "length as = length ?cols" using all2 by (simp add: list_all2_lengthD)
  have names: "t_names R = map e_name ?cols" and data: "t_data R = as" using R by simp_all
  have "set ns \<subseteq> e_name ` set ?cols" using sub names by simp
  from select_columns_total[OF this] obtain cs where cs: "select_columns ?cols ns = Inr cs" by auto
  note sel = select_columns_Inr[OF cs]
  have req': "requested_columns m (Some ns) = Inr cs" using cs by (simp add: requested_columns_def)
  have "\<forall>c\<in>set cs. \<exists>a. column_result d c = Inr a"
  proof
    fix c assume "c \<in> set cs"
    then have "c \<in> set ?cols" using sel by auto
    then obtain j where "j < length ?cols" "?cols ! j = c" by (auto simp: in_set_conv_nth)
    then show "\<exists>a. column_result d c = Inr a" using all2 by (auto simp: list_all2_conv_all_nth)
  qed
  from column_results_total[OF this] obtain as' where as': "column_results d cs = Inr as'" by auto
  have all2': "list_all2 (\<lambda>c a. column_result d c = Inr a) cs as'"
    using column_results_Inr[OF as'] .
  have len': "length as' = length ns" using all2' sel by (auto dest: list_all2_lengthD)
  define R' where "R' = \<lparr>t_names = map e_name cs, t_meta = m_meta m, t_masked = m_masked m,
                 t_data = as', t_units = fold add_unit cs []\<rparr>"
  have sR': "snd (read (Some d) (Some ns)) = Inr R'"
    using read_eq[OF m req'] as' by (simp add: R'_def)
  have cols_eq: "t_data R' ! i = t_data R ! j"
    if i: "i < length ns" and j: "j < length (t_names R)" and eq: "t_names R ! j = ns ! i" for i j
  proof -
    have lcs: "length cs = length ns" using sel by (metis length_map)
    have ci: "cs ! i \<in> set ?cols" using sel i lcs by (auto simp: subset_iff)
    have ni: "e_name (cs ! i) = ns ! i" using sel i lcs by (metis nth_map)
    have j': "j < length ?cols" using j names by simp
    have nj: "e_name (?cols ! j) = ns ! i" using eq names j' by simp
    have inj: "inj_on e_name (set ?cols)" using dn names by (simp add: distinct_map)
    have "cs ! i = ?cols ! j" using inj ci ni nj j' by (auto simp: inj_on_def)
    moreover have "column_result d (cs ! i) = Inr (as' ! i)"
      using all2' i lcs by (simp add: list_all2_conv_all_nth)
    moreover have "column_result d (?cols ! j) = Inr (as ! j)"
      using all2 j' by (simp add: list_all2_conv_all_nth)
    ultimately show ?thesis using data by (simp add: R'_def)
  qed
  have "read (Some d) (Some ns) = (fst (read (Some d) (Some ns)), Inr R')"
    using sR' by (simp add: prod_eq_iff)
  moreover have "t_names R' = ns" using sel by (simp add: R'_def)
  moreover have "length (t_data R') = length ns" using len' by (simp add: R'_def)
  moreover have "\<forall>i<length ns. \<forall>j<length (t_names R). t_names R ! j = ns ! i \<longrightarrow>
                 column_values (t_data R' ! i) = column_values (t_data R ! j)
                 \<and> column_mask (t_data R' ! i) = column_mask (t_data R ! j)"
    using cols_eq by simp
  ultimately show ?thesis
    by (intro exI[of _ "fst (read (Some d) (Some ns))"] exI[of _ R'] conjI)
qed

theorem selective_read_witness:
  "\<exists>log' R'. read (Some flux_dir) (Some [''flux'', ''id'']) = (log', Inr R')
     \<and> t_names R' = [''flux'', ''id'']
     \<and> length (t_data R') = length [''flux'', ''id'']"
proof -
  let ?R = "\<lparr>t_names = [''id'', ''name'', ''flux''],
           t_meta = JObj [(''origin'', JStr ''survey'')], t_masked = True,
           t_data = [([Num 1, Num 2, Num 3], None), ([Txt ''a'', Txt ''b'', Txt ''c''], None),
                     ([Num 15, Num 25, Num 0], Some [False, False, True])],
           t_units = [(''flux'', ''Jy'')]\<rparr>"
  have h1: "distinct (t_names ?R)" by simp
  have h2: "distinct [''flux'', ''id'']" by simp
  have h3: "set [''flux'', ''id''] \<subseteq> set (t_names ?R)" by simp
  from selective_read [OF flux_read_full h1 h2 h3]
  show ?thesis by (elim exE conjE) (intro exI conjI, assumption+)
qed

subsection \<open>The planner's invariant\<close>

lemma key_file_append:
  "k \<in> storage_key ` set cols \<Longrightarrow> key_file k (cols @ cs) = key_file k cols"
  by (induction cols) auto

lemma key_file_snoc_new:
  "storage_key c \<notin> storage_key ` set cols \<Longrightarrow>
     key_file (storage_key c) (cols @ [c]) = df_name (fresh_datafile c)"
  by (induction cols) auto

lemma key_file_snoc_other:
  "k \<noteq> storage_key c \<Longrightarrow> key_file k (cols @ [c]) = key_file k cols"
  by (induction cols) auto

lemma filter_key_empty:
  "k \<notin> storage_key ` set cols \<Longrightarrow> filter (\<lambda>c. storage_key c = k) cols = []"
  by (induction cols) auto

lemma expected_entry_append:
  "j < length cols \<Longrightarrow> expected_entry masked (cols @ cs) j = expected_entry masked cols j"
  by (simp add: expected_entry_def Let_def nth_append key_file_append)

lemma dict_set_distinct:
  "distinct (map fst kvs) \<Longrightarrow> distinct (map fst (dict_set k v kvs))"
  by (induction kvs) (auto simp: dict_set_keys)

lemma setdefault_inv:
  assumes "plan_inv masked cols st"
  shows "df_name (setdefault c (datafiles st)) = key_file (storage_key c) (cols @ [c])"
    and "df_datas (setdefault c (datafiles st)) = key_data (storage_key c) cols"
    and "df_length (setdefault c (datafiles st)) = key_rows (storage_key c) cols"
proof -
  show "df_name (setdefault c (datafiles st)) = key_file (storage_key c) (cols @ [c])"
  proof (cases "map_of (datafiles st) (storage_key c)")
    case None
    then have "storage_key c \<notin> storage_key ` set cols"
      using assms by (auto simp: plan_inv_def map_of_eq_None_iff)
    then show ?thesis using None by (simp add: setdefault_def key_file_snoc_new)
  next
    case (Some df)
    then have "storage_key c \<in> fst ` set (datafiles st)" by (metis map_of_eq_None_iff option.distinct(1))
    then have "storage_key c \<in> storage_key ` set cols" using assms by (simp add: plan_inv_def)
    then show ?thesis using Some assms by (simp add: setdefault_def key_file_append plan_inv_def)
  qed
  show "df_datas (setdefault c (datafiles st)) = key_data (storage_key c) cols"
  proof (cases "map_of (datafiles st) (storage_key c)")
    case None
    then have "storage_key c \<notin> storage_key ` set cols"
      using assms by (auto simp: plan_inv_def map_of_eq_None_iff)
    then have "filter (\<lambda>c'. storage_key c' = storage_key c) cols = []"
      by (rule filter_key_empty)
    then show ?thesis using None
      by (simp add: setdefault_def key_data_def fresh_datafile_def)
  next
    case (Some df)
    then show ?thesis using assms by (simp add: setdefault_def plan_inv_def)
  qed
  show "df_length (setdefault c (datafiles st)) = key_rows (storage_key c) cols"
  proof (cases "map_of (datafiles st) (storage_key c)")
    case None
    then have "storage_key c \<notin> storage_key ` set cols"
      using assms by (auto simp: plan_inv_def map_of_eq_None_iff)
    then have "filter (\<lambda>c'. storage_key c' = storage_key c) cols = []"
      by (rule filter_key_empty)
    then show ?thesis using None
      by (simp add: setdefault_def key_rows_def fresh_datafile_def)
  next
    case (Some df)
    then show ?thesis using assms by (simp add: setdefault_def plan_inv_def)
  qed
qed

lemma plan_column_Inr:
  assumes "plan_column masked st c = Inr st'"
  shows "datafiles st' =
           dict_set (storage_key c)
             ((setdefault c (datafiles st))
                \<lparr>df_length := df_length (setdefault c (datafiles st)) + rows c,
                 df_datas := df_datas (setdefault c (datafiles st)) @ cdata c\<rparr>)
             (datafiles st)"
    and "columns st' = columns st @
           [\<lparr>e_name = cname c, e_file = df_name (setdefault c (datafiles st)),
             e_offset = df_length (setdefault c (datafiles st)), e_length = rows c,
             e_maskoffset = (if has_mask masked c then Some (masklength st) else None),
             e_unit = cunit c\<rparr>]"
    and "maskdatas st' = maskdatas st @ (if has_mask masked c then [cmask c] else [])"
    and "masklength st' = masklength st + (if has_mask masked c then rows c else 0)"
    and "has_mask masked c \<Longrightarrow> length (cmask c) = rows c"
    and "is_text c \<or> CHR ''<'' \<notin> set (dtype_str c)"
  using assms
  by (auto simp: plan_column_def Let_def has_mask_def rows_def split: if_splits)

lemma key_rows_snoc:
  "key_rows k (cols @ [c]) = key_rows k cols + (if storage_key c = k then rows c else 0)"
  by (simp add: key_rows_def)

lemma key_data_snoc:
  "key_data k (cols @ [c]) = key_data k cols @ (if storage_key c = k then cdata c else [])"
  by (simp add: key_data_def)

lemma mask_rows_snoc:
  "mask_rows masked (cols @ [c]) = mask_rows masked cols + (if has_mask masked c then rows c else 0)"
  by (simp add: mask_rows_def)

lemma plan_column_inv:
  assumes inv: "plan_inv masked cols st" and pc: "plan_column masked st c = Inr st'"
  shows "plan_inv masked (cols @ [c]) st'"
proof -
  note f = plan_column_Inr[OF pc]
  note sd = setdefault_inv[OF inv, of c]
  let ?k = "storage_key c"
  let ?n = "length cols"
  have cols_st: "columns st = map (expected_entry masked cols) [0..<?n]"
    and md: "maskdatas st = map cmask (filter (has_mask masked) cols)"
    and ml: "masklength st = mask_rows masked cols"
    and dist: "distinct (map fst (datafiles st))"
    and keys: "fst ` set (datafiles st) = storage_key ` set cols"
    and dfs: "\<And>k df. map_of (datafiles st) k = Some df \<Longrightarrow>
           df_name df = key_file k cols \<and> df_datas df = key_data k cols
           \<and> df_length df = key_rows k cols"
    and masks: "\<And>c. c \<in> set cols \<Longrightarrow> has_mask masked c \<Longrightarrow> length (cmask c) = rows c"
    using inv by (simp_all add: plan_inv_def)
  have new: "expected_entry masked (cols @ [c]) ?n =
      \<lparr>e_name = cname c, e_file = df_name (setdefault c (datafiles st)),
       e_offset = df_length (setdefault c (datafiles st)), e_length = rows c,
       e_maskoffset = (if has_mask masked c then Some (masklength st) else None),
       e_unit = cunit c\<rparr>"
    by (simp add: expected_entry_def Let_def sd ml)
  have old: "map (expected_entry masked (cols @ [c])) [0..<?n] = map (expected_entry masked cols) [0..<?n]"
    by (rule map_cong) (simp_all add: expected_entry_append)
  have 1: "columns st' = map (expected_entry masked (cols @ [c])) [0..<length (cols @ [c])]"
    using f(2) cols_st new old by simp
  have 2: "maskdatas st' = map cmask (filter (has_mask masked) (cols @ [c]))"
    using f(3) md by simp
  have 3: "masklength st' = mask_rows masked (cols @ [c])"
    using f(4) ml by (simp add: mask_rows_snoc)
  have 4: "distinct (map fst (datafiles st'))"
    using f(1) dist by (simp add: dict_set_distinct)
  have 5: "fst ` set (datafiles st') = storage_key ` set (cols @ [c])"
    using f(1) keys by (simp add: dict_set_keys)
  have 6: "df_name df = key_file k (cols @ [c]) \<and> df_datas df = key_data k (cols @ [c])
           \<and> df_length df = key_rows k (cols @ [c])"
    if look: "map_of (datafiles st') k = Some df" for k df
  proof (cases "k = ?k")
    case True
    then have "df = (setdefault c (datafiles st))
                \<lparr>df_length := df_length (setdefault c (datafiles st)) + rows c,
                 df_datas := df_datas (setdefault c (datafiles st)) @ cdata c\<rparr>"
      using look f(1) by (simp add: map_of_dict_set)
    then show ?thesis using True sd by (simp add: key_rows_snoc key_data_snoc)
  next
    case False
    then have "map_of (datafiles st) k = Some df" using look f(1) by (simp add: map_of_dict_set)
    from dfs[OF this] show ?thesis using False
      by (simp add: key_rows_snoc key_data_snoc key_file_snoc_other)
  qed
  have 7: "\<forall>c'\<in>set (cols @ [c]). has_mask masked c' \<longrightarrow> length (cmask c') = rows c'"
    using masks f(5) by auto
  show ?thesis unfolding plan_inv_def using 1 2 3 4 5 6 7 by blast
qed

lemma plan_columns_inv:
  "plan_inv masked pre st \<Longrightarrow> plan_columns masked st cols = Inr st'
   \<Longrightarrow> plan_inv masked (pre @ cols) st'"
proof (induction cols arbitrary: pre st)
  case Nil
  then show ?case by simp
next
  case (Cons c cols)
  from Cons.prems(2) obtain st1 where pc: "plan_column masked st c = Inr st1"
    and rest: "plan_columns masked st1 cols = Inr st'"
    by (auto split: sum.splits)
  from Cons.IH[OF plan_column_inv[OF Cons.prems(1) pc] rest] show ?case by simp
qed

lemma plan_inv_init: "plan_inv masked [] plan_init"
  by (simp add: plan_inv_def plan_init_def mask_rows_def)

lemma plan_Inr_inv: "plan T = Inr st \<Longrightarrow> plan_inv (tmasked T) (tcolumns T) st"
  using plan_columns_inv[OF plan_inv_init, of "tmasked T" "tcolumns T" st] by (simp add: plan_def)

lemma key_file_shape:
  "k \<in> storage_key ` set cols \<Longrightarrow>
     key_file k cols = ''data.text.json'' \<and> k = ''text''
     \<or> key_file k cols = ''data.'' @ k @ ''.npy''"
  by (induction cols) (auto simp: fresh_datafile_def storage_key_def)

lemma text_json_not_npy: "''text.json'' \<noteq> k @ ''.npy''"
proof
  assume "''text.json'' = k @ ''.npy''"
  then have "last ''text.json'' = last (k @ ''.npy'')" by simp
  then show False by simp
qed

lemma key_file_inj:
  assumes "k1 \<in> storage_key ` set cols" and "k2 \<in> storage_key ` set cols"
    and "key_file k1 cols = key_file k2 cols"
  shows "k1 = k2"
  using key_file_shape[OF assms(1)] key_file_shape[OF assms(2)] assms(3) text_json_not_npy
  by (auto simp del: append.simps)

lemma key_rows_append: "key_rows k (xs @ ys) = key_rows k xs + key_rows k ys"
  by (simp add: key_rows_def)

lemma mask_rows_append: "mask_rows m (xs @ ys) = mask_rows m xs + mask_rows m ys"
  by (simp add: mask_rows_def)

lemma key_rows_take_mono:
  assumes "i < j" and "j \<le> length cols" and "storage_key (cols ! i) = k"
  shows "key_rows k (take i cols) + rows (cols ! i) \<le> key_rows k (take j cols)"
proof -
  have "take j cols = take (Suc i) cols @ take (j - Suc i) (drop (Suc i) cols)"
    using assms(1) by (metis Suc_leI le_add_diff_inverse take_add)
  moreover have "take (Suc i) cols = take i cols @ [cols ! i]"
    using assms(1,2) by (simp add: take_Suc_conv_app_nth)
  ultimately obtain rest where r: "take j cols = (take i cols @ [cols ! i]) @ rest"
    by metis
  have "key_rows k (take j cols) = key_rows k (take i cols @ [cols ! i]) + key_rows k rest"
    by (simp only: r key_rows_append)
  then show ?thesis using assms(3) by (simp add: key_rows_snoc)
qed

lemma mask_rows_take_mono:
  assumes "i < j" and "j \<le> length cols" and "has_mask m (cols ! i)"
  shows "mask_rows m (take i cols) + rows (cols ! i) \<le> mask_rows m (take j cols)"
proof -
  have "take j cols = take (Suc i) cols @ take (j - Suc i) (drop (Suc i) cols)"
    using assms(1) by (metis Suc_leI le_add_diff_inverse take_add)
  moreover have "take (Suc i) cols = take i cols @ [cols ! i]"
    using assms(1,2) by (simp add: take_Suc_conv_app_nth)
  ultimately obtain rest where r: "take j cols = (take i cols @ [cols ! i]) @ rest"
    by metis
  have "mask_rows m (take j cols) = mask_rows m (take i cols @ [cols ! i]) + mask_rows m rest"
    by (simp only: r mask_rows_append)
  then show ?thesis using assms(3) by (simp add: mask_rows_snoc)
qed

lemma expected_entry_fields:
  "e_name (expected_entry m cols j) = cname (cols ! j)"
  "e_file (expected_entry m cols j) = key_file (storage_key (cols ! j)) cols"
  "e_offset (expected_entry m cols j) = key_rows (storage_key (cols ! j)) (take j cols)"
  "e_length (expected_entry m cols j) = rows (cols ! j)"
  "e_maskoffset (expected_entry m cols j) =
     (if has_mask m (cols ! j) then Some (mask_rows m (take j cols)) else None)"
  "e_unit (expected_entry m cols j) = cunit (cols ! j)"
  by (simp_all add: expected_entry_def Let_def)

lemma earlier_key_total:
  assumes "k \<in> storage_key ` set cols" and "j \<le> length cols"
  shows "sum_list (map e_length (filter (\<lambda>e. e_file e = key_file k cols)
           (map (expected_entry m cols) [0..<j]))) = key_rows k (take j cols)"
  using assms(2)
proof (induction j)
  case 0
  then show ?case by (simp add: key_rows_def)
next
  case (Suc j)
  then have j: "j < length cols" by simp
  have t: "take (Suc j) cols = take j cols @ [cols ! j]"
    using j by (simp add: take_Suc_conv_app_nth)
  have kj: "storage_key (cols ! j) \<in> storage_key ` set cols" using j by simp
  have eq: "(key_file (storage_key (cols ! j)) cols = key_file k cols) = (storage_key (cols ! j) = k)"
    using key_file_inj[OF kj assms(1)] by auto
  show ?case using Suc.IH j
    by (simp add: t key_rows_snoc expected_entry_fields eq)
qed

lemma earlier_mask_total:
  assumes "j \<le> length cols"
  shows "sum_list (map e_length (filter (\<lambda>e. e_maskoffset e \<noteq> None)
           (map (expected_entry m cols) [0..<j]))) = mask_rows m (take j cols)"
  using assms
proof (induction j)
  case 0
  then show ?case by (simp add: mask_rows_def)
next
  case (Suc j)
  then have j: "j < length cols" by simp
  have t: "take (Suc j) cols = take j cols @ [cols ! j]"
    using j by (simp add: take_Suc_conv_app_nth)
  show ?case using Suc.IH j
    by (simp add: t mask_rows_snoc expected_entry_fields)
qed

lemma take_map_upt: "j \<le> n \<Longrightarrow> take j (map f [0..<n]) = map f [0..<j]"
  by (simp add: take_map)

lemma slice_middle: "length xs = off \<Longrightarrow> length ys = n \<Longrightarrow> slice off n (xs @ ys @ zs) = ys"
  by (simp add: slice_def)

lemma split_at: "j < length cols \<Longrightarrow> cols = take j cols @ [cols ! j] @ drop (Suc j) cols"
  by (simp add: id_take_nth_drop)

lemma key_data_length: "length (key_data k cols) = key_rows k cols"
  by (induction cols) (simp_all add: key_data_def key_rows_def rows_def)

lemma key_data_append: "key_data k (xs @ ys) = key_data k xs @ key_data k ys"
  by (simp add: key_data_def)

lemma key_data_slice:
  assumes "j < length cols"
  shows "slice (key_rows (storage_key (cols ! j)) (take j cols)) (rows (cols ! j))
           (key_data (storage_key (cols ! j)) cols) = cdata (cols ! j)"
proof -
  let ?k = "storage_key (cols ! j)"
  have "key_data ?k cols = key_data ?k (take j cols @ [cols ! j] @ drop (Suc j) cols)"
    using split_at[OF assms] by simp
  also have "\<dots> = key_data ?k (take j cols) @ cdata (cols ! j) @ key_data ?k (drop (Suc j) cols)"
    by (simp only: key_data_append) (simp add: key_data_def)
  finally show ?thesis
    by (simp add: slice_middle key_data_length rows_def)
qed

lemma mask_data_append: "mask_data m (xs @ ys) = mask_data m xs @ mask_data m ys"
  by (simp add: mask_data_def)

lemma mask_data_length:
  "\<forall>c\<in>set cols. has_mask m c \<longrightarrow> length (cmask c) = rows c
   \<Longrightarrow> length (mask_data m cols) = mask_rows m cols"
  by (induction cols) (auto simp: mask_data_def mask_rows_def)

lemma mask_data_slice:
  assumes "j < length cols" and "has_mask m (cols ! j)"
    and len: "\<forall>c\<in>set cols. has_mask m c \<longrightarrow> length (cmask c) = rows c"
  shows "slice (mask_rows m (take j cols)) (rows (cols ! j)) (mask_data m cols) = cmask (cols ! j)"
proof -
  have "mask_data m cols = mask_data m (take j cols @ [cols ! j] @ drop (Suc j) cols)"
    using split_at[OF assms(1)] by simp
  also have "\<dots> = mask_data m (take j cols) @ cmask (cols ! j) @ mask_data m (drop (Suc j) cols)"
    using assms(2) by (simp only: mask_data_append) (simp add: mask_data_def)
  finally have eq: "mask_data m cols =
      mask_data m (take j cols) @ cmask (cols ! j) @ mask_data m (drop (Suc j) cols)" .
  have "\<forall>c\<in>set (take j cols). has_mask m c \<longrightarrow> length (cmask c) = rows c"
    using len by (meson in_set_takeD)
  then have l1: "length (mask_data m (take j cols)) = mask_rows m (take j cols)"
    by (rule mask_data_length)
  have l2: "length (cmask (cols ! j)) = rows (cols ! j)" using assms len by simp
  show ?thesis by (subst eq) (rule slice_middle[OF l1 l2])
qed

lemma read_no_maskoffset:
  assumes m: "load_manifest fs = Inr m" and cs: "requested_columns m oc = Inr cs"
    and r: "read fs oc = (log, Inr R)" and i: "i < length cs" and no: "e_maskoffset (cs ! i) = None"
  shows "snd (t_data R ! i) = None"
proof -
  obtain d where fs: "fs = Some d" using m by (cases fs) (auto simp: load_manifest_def)
  have "snd (read (Some d) oc) = Inr R" using r fs by simp
  with read_eq[OF m[unfolded fs] cs] obtain as where as: "column_results d cs = Inr as"
    and R: "t_data R = as"
    by (auto split: sum.splits)
  have "list_all2 (\<lambda>c a. column_result d c = Inr a) cs as" using column_results_Inr[OF as] .
  then have "column_result d (cs ! i) = Inr (as ! i)" using i by (simp add: list_all2_conv_all_nth)
  then have "snd (as ! i) = None" using no
    by (auto simp: column_result_def split: sum.splits dest: sym)
  then show ?thesis using R by simp
qed

lemma run_actions_None:
  "run_actions None (a # as) d =
     (case exec a d of Inl e \<Rightarrow> (d, Some e) | Inr d' \<Rightarrow> run_actions None as d')"
  by (cases "exec a d") simp_all

lemma run_actions_0:
  "run_actions (Some (0, created)) (a # as) d = (exec_failing created a d, Some OSError)"
  by simp

lemma run_actions_Suc:
  "run_actions (Some (Suc k, created)) (a # as) d =
     (case exec a d of Inl e \<Rightarrow> (d, Some e) | Inr d' \<Rightarrow> run_actions (Some (k, created)) as d')"
  by (cases "exec a d") simp_all

lemma run_actions_fault:
  assumes "\<forall>a\<in>set pre. \<exists>f c. a = WriteFile f c \<and> f \<noteq> n"
    and "k < length pre"
  shows "snd (run_actions (Some (k, created)) (pre @ rest) d) \<noteq> None
         \<and> fst (run_actions (Some (k, created)) (pre @ rest) d) n = d n"
  using assms
proof (induction pre arbitrary: k d)
  case Nil
  then show ?case by simp
next
  case (Cons a pre)
  from Cons.prems(1) obtain f c where a: "a = WriteFile f c" and fn: "f \<noteq> n" by auto
  have pre: "\<forall>a\<in>set pre. \<exists>f c. a = WriteFile f c \<and> f \<noteq> n" using Cons.prems(1) by simp
  show ?case
  proof (cases k)
    case 0
    show ?thesis unfolding 0 append_Cons run_actions_0 using a fn by simp
  next
    case (Suc k')
    have klt: "k' < length pre" using Cons.prems(2) Suc by simp
    note IH = Cons.IH[OF pre klt]
    show ?thesis
    proof (cases "CHR ''/'' \<in> set f")
      case True
      show ?thesis unfolding Suc append_Cons run_actions_Suc using a True by simp
    next
      case False
      then have "exec a d = Inr (d(f \<mapsto> c))" using a by simp
      then show ?thesis unfolding Suc append_Cons run_actions_Suc using IH fn by simp
    qed
  qed
qed

lemma write_actions_eq:
  "write_actions T st =
     (WriteFile ''bintable.json_''
        (FManifest \<lparr>m_meta = tmeta T, m_masked = tmasked T, m_columns = columns st\<rparr>)
      # map (\<lambda>fc. WriteFile (fst fc) (snd fc)) (data_writes st))
     @ [Rename ''bintable.json_'' ''bintable.json'']"
  by (simp add: write_actions_def data_writes_def datafile_action_def file_content_def Let_def
      comp_def)

lemma plan_inv_D:
  assumes "plan_inv m cols st"
  shows "columns st = map (expected_entry m cols) [0..<length cols]"
    and "maskdatas st = map cmask (filter (has_mask m) cols)"
    and "masklength st = mask_rows m cols"
    and "distinct (map fst (datafiles st))"
    and "fst ` set (datafiles st) = storage_key ` set cols"
    and "\<And>k df. map_of (datafiles st) k = Some df \<Longrightarrow>
           df_name df = key_file k cols \<and> df_datas df = key_data k cols
           \<and> df_length df = key_rows k cols"
    and "\<And>c. c \<in> set cols \<Longrightarrow> has_mask m c \<Longrightarrow> length (cmask c) = rows c"
  using assms unfolding plan_inv_def by blast+

lemma datafile_names:
  assumes "plan_inv m cols st" and "(k, df) \<in> set (datafiles st)"
  shows "df_name df = ''data.text.json'' \<or> df_name df = ''data.'' @ k @ ''.npy''"
    and "df_name df = key_file k cols" and "k \<in> storage_key ` set cols"
    and "df_datas df = key_data k cols"
proof -
  have look: "map_of (datafiles st) k = Some df"
    using plan_inv_D(4)[OF assms(1)] assms(2) by (rule map_of_is_SomeI)
  have "k \<in> fst ` set (datafiles st)" using assms(2) by (rule image_eqI[rotated]) simp
  then have k: "k \<in> storage_key ` set cols" using plan_inv_D(5)[OF assms(1)] by simp
  have n: "df_name df = key_file k cols" "df_datas df = key_data k cols"
    using plan_inv_D(6)[OF assms(1) look] by simp_all
  show "df_name df = ''data.text.json'' \<or> df_name df = ''data.'' @ k @ ''.npy''"
    using key_file_shape[OF k] n(1) by (simp only:) blast
  show "df_name df = key_file k cols" "k \<in> storage_key ` set cols" "df_datas df = key_data k cols"
    using n k by simp_all
qed

lemma data_writes_cases:
  assumes "(f, c) \<in> set (data_writes st)"
  shows "f = ''mask.npy'' \<and> c = FNpy (map Bool (concat (maskdatas st))) \<and> maskdatas st \<noteq> []
         \<or> (\<exists>k df. (k, df) \<in> set (datafiles st) \<and> f = df_name df \<and> c = file_content df)"
proof -
  from assms have "(f, c) \<in> set (if maskdatas st \<noteq> []
        then [(''mask.npy'', FNpy (map Bool (concat (maskdatas st))))] else [])
      \<or> (f, c) \<in> set (map (\<lambda>kv. (df_name (snd kv), file_content (snd kv))) (datafiles st))"
    by (simp add: data_writes_def)
  then show ?thesis
  proof
    assume "(f, c) \<in> set (if maskdatas st \<noteq> []
        then [(''mask.npy'', FNpy (map Bool (concat (maskdatas st))))] else [])"
    then show ?thesis by (simp split: if_splits)
  next
    assume "(f, c) \<in> set (map (\<lambda>kv. (df_name (snd kv), file_content (snd kv))) (datafiles st))"
    then obtain kv where "kv \<in> set (datafiles st)" "f = df_name (snd kv)" "c = file_content (snd kv)"
      by auto
    then have "(fst kv, snd kv) \<in> set (datafiles st) \<and> f = df_name (snd kv) \<and> c = file_content (snd kv)"
      by simp
    then show ?thesis by blast
  qed
qed

lemma data_writes_names:
  assumes "plan_inv m cols st" and "(f, c) \<in> set (data_writes st)"
  shows "f \<noteq> ''bintable.json''" and "f \<noteq> ''bintable.json_''"
    and "f = ''mask.npy'' \<or> f = ''data.text.json'' \<or> (\<exists>k. f = ''data.'' @ k @ ''.npy'')"
proof -
  from data_writes_cases[OF assms(2)]
  show shape: "f = ''mask.npy'' \<or> f = ''data.text.json'' \<or> (\<exists>k. f = ''data.'' @ k @ ''.npy'')"
  proof
    assume "f = ''mask.npy'' \<and> c = FNpy (map Bool (concat (maskdatas st))) \<and> maskdatas st \<noteq> []"
    then show ?thesis by simp
  next
    assume "\<exists>k df. (k, df) \<in> set (datafiles st) \<and> f = df_name df \<and> c = file_content df"
    then obtain k df where kd: "(k, df) \<in> set (datafiles st)" and f: "f = df_name df" by blast
    from datafile_names(1)[OF assms(1) kd] show ?thesis unfolding f by blast
  qed
  have a: "''data.'' @ k @ ''.npy'' \<noteq> ''bintable.json''" for k by simp
  have b: "''data.'' @ k @ ''.npy'' \<noteq> ''bintable.json_''" for k by simp
  show "f \<noteq> ''bintable.json''" using shape a by (elim disjE exE) simp_all
  show "f \<noteq> ''bintable.json_''" using shape b by (elim disjE exE) simp_all
qed

text \<open>The example of two columns in one file, evaluated.\<close>

lemma pair_plan: "plan pair_table = Inr pair_layout"
  by (simp add: plan_def pair_table_def plan_init_def plan_column_def is_text_def
      setdefault_def storage_key_def fresh_datafile_def pair_layout_def)

subsection \<open>C3: offsets\<close>

text \<open>
  C3: for every table that the planner accepts, the manifest has one entry for each column;
  two entries name the same backing file exactly when their columns have the same
  storage-type key; each entry's offset is the sum of the lengths of the earlier entries of
  its file, and each mask offset is the sum of the lengths of the earlier entries that have
  a mask offset (contiguous, gapless, in write order); the ranges \<open>[offset, offset+length)\<close>
  of two distinct entries of one file are disjoint, and so are the mask ranges of two
  distinct entries.
\<close>

theorem layout_offsets:
  assumes "plan T = Inr st"
  shows "length (columns st) = length (tcolumns T)
    \<and> (\<forall>i<length (columns st). \<forall>j<length (columns st).
          (e_file (columns st ! i) = e_file (columns st ! j))
          = (storage_key (tcolumns T ! i) = storage_key (tcolumns T ! j)))
    \<and> (\<forall>j<length (columns st).
          e_offset (columns st ! j)
          = earlier_total (\<lambda>e. e_file e = e_file (columns st ! j)) (columns st) j)
    \<and> (\<forall>j<length (columns st). \<forall>mo. e_maskoffset (columns st ! j) = Some mo \<longrightarrow>
          mo = earlier_total (\<lambda>e. e_maskoffset e \<noteq> None) (columns st) j)
    \<and> (\<forall>i<length (columns st). \<forall>j<length (columns st).
          i \<noteq> j \<and> e_file (columns st ! i) = e_file (columns st ! j) \<longrightarrow>
          data_range (columns st ! i) \<inter> data_range (columns st ! j) = {})
    \<and> (\<forall>i<length (columns st). \<forall>j<length (columns st).
          i \<noteq> j \<longrightarrow> mask_range (columns st ! i) \<inter> mask_range (columns st ! j) = {})"
proof -
  let ?m = "tmasked T" and ?cols = "tcolumns T" and ?cs = "columns st"
  from plan_Inr_inv[OF assms] have cs: "?cs = map (expected_entry ?m ?cols) [0..<length ?cols]"
    by (simp add: plan_inv_def)
  have len: "length ?cs = length ?cols" using cs by simp
  have nth: "?cs ! j = expected_entry ?m ?cols j" if "j < length ?cols" for j
    using cs that by simp
  have key: "storage_key (?cols ! j) \<in> storage_key ` set ?cols" if "j < length ?cols" for j
    using that by simp
  have files: "(e_file (?cs ! i) = e_file (?cs ! j)) = (storage_key (?cols ! i) = storage_key (?cols ! j))"
    if "i < length ?cols" "j < length ?cols" for i j
    using key_file_inj[OF key[OF that(1)] key[OF that(2)]] that
    by (auto simp: nth expected_entry_fields)
  have off: "e_offset (?cs ! j) = earlier_total (\<lambda>e. e_file e = e_file (?cs ! j)) ?cs j"
    if j: "j < length ?cols" for j
  proof -
    have "take j ?cs = map (expected_entry ?m ?cols) [0..<j]"
      using j by (subst cs) (simp add: take_map_upt)
    then show ?thesis using earlier_key_total[OF key[OF j], of j ?m] j
      by (simp add: earlier_total_def nth expected_entry_fields)
  qed
  have moff: "mo = earlier_total (\<lambda>e. e_maskoffset e \<noteq> None) ?cs j"
    if j: "j < length ?cols" and mo: "e_maskoffset (?cs ! j) = Some mo" for j mo
  proof -
    have "take j ?cs = map (expected_entry ?m ?cols) [0..<j]"
      using j by (subst cs) (simp add: take_map_upt)
    then show ?thesis using earlier_mask_total[of j ?cols ?m] j mo
      by (simp add: earlier_total_def nth expected_entry_fields split: if_splits)
  qed
  have lt_data: "data_range (?cs ! i) \<inter> data_range (?cs ! j) = {}"
    if "i < j" "j < length ?cols" "e_file (?cs ! i) = e_file (?cs ! j)" for i j
  proof -
    have "storage_key (?cols ! i) = storage_key (?cols ! j)" using files that by simp
    from key_rows_take_mono[OF that(1) _ this] that(1,2) this
    show ?thesis by (auto simp: data_range_def nth expected_entry_fields)
  qed
  have data: "data_range (?cs ! i) \<inter> data_range (?cs ! j) = {}"
    if "i < length ?cols" "j < length ?cols" "i \<noteq> j" "e_file (?cs ! i) = e_file (?cs ! j)" for i j
  proof (cases "i < j")
    case True
    then show ?thesis using lt_data that by simp
  next
    case False
    then have "j < i" using that(3) by simp
    then have "data_range (?cs ! j) \<inter> data_range (?cs ! i) = {}" using lt_data that by simp
    then show ?thesis by blast
  qed
  have lt_mask: "mask_range (?cs ! i) \<inter> mask_range (?cs ! j) = {}"
    if "i < j" "j < length ?cols" for i j
  proof (cases "has_mask ?m (?cols ! i)")
    case True
    from mask_rows_take_mono[OF that(1) _ True] that
    show ?thesis by (auto simp: mask_range_def nth expected_entry_fields)
  next
    case False
    then show ?thesis using that by (simp add: mask_range_def nth expected_entry_fields)
  qed
  have mask: "mask_range (?cs ! i) \<inter> mask_range (?cs ! j) = {}"
    if "i < length ?cols" "j < length ?cols" "i \<noteq> j" for i j
  proof (cases "i < j")
    case True
    then show ?thesis using lt_mask that by simp
  next
    case False
    then have "j < i" using that(3) by simp
    then have "mask_range (?cs ! j) \<inter> mask_range (?cs ! i) = {}" using lt_mask that by simp
    then show ?thesis by blast
  qed
  show ?thesis using len files off moff data mask by simp
qed

theorem layout_offsets_witness:
  "e_offset (columns pair_layout ! 1) = 2
   \<and> data_range (columns pair_layout ! 0) \<inter> data_range (columns pair_layout ! 1) = {}
   \<and> mask_range (columns pair_layout ! 0) \<inter> mask_range (columns pair_layout ! 1) = {}"
proof -
  note t = layout_offsets [OF pair_plan]
  note off = t[THEN conjunct2, THEN conjunct2, THEN conjunct1, rule_format, of 1]
  note dat = t[THEN conjunct2, THEN conjunct2, THEN conjunct2, THEN conjunct2, THEN conjunct1,
      rule_format, of 0 1]
  note msk = t[THEN conjunct2, THEN conjunct2, THEN conjunct2, THEN conjunct2, THEN conjunct2,
      rule_format, of 0 1]
  have "e_offset (columns pair_layout ! 1) = 2"
    using off by (simp add: pair_layout_def earlier_total_def)
  moreover have "data_range (columns pair_layout ! 0) \<inter> data_range (columns pair_layout ! 1) = {}"
    using dat by (simp add: pair_layout_def)
  moreover have "mask_range (columns pair_layout ! 0) \<inter> mask_range (columns pair_layout ! 1) = {}"
    using msk by (simp add: pair_layout_def)
  ultimately show ?thesis by simp
qed

subsection \<open>C5: which columns have a mask offset\<close>

text \<open>
  C5: for every table that the planner accepts and each of its columns, the column's
  manifest entry has a \<^verbatim>\<open>maskoffset\<close> if and only if the table is masked and the column's mask
  has a true entry; then the mask has the column's length \<open>N\<close> and is the part of the mask
  buffer of that length at that offset. And a column whose entry has no \<^verbatim>\<open>maskoffset\<close> is
  read back with no invalid entry, whatever the manifest's \<^verbatim>\<open>masked\<close> flag.
\<close>

theorem mask_offsets:
  "(plan T = Inr st \<longrightarrow>
      (\<forall>j<length (tcolumns T).
         (e_maskoffset (columns st ! j) \<noteq> None)
           = (tmasked T \<and> True \<in> set (cmask (tcolumns T ! j)))
         \<and> (\<forall>mo. e_maskoffset (columns st ! j) = Some mo \<longrightarrow>
               length (cmask (tcolumns T ! j)) = length (cdata (tcolumns T ! j))
               \<and> slice mo (length (cdata (tcolumns T ! j))) (concat (maskdatas st))
                   = cmask (tcolumns T ! j))))
   \<and> (load_manifest fs = Inr m \<and> requested_columns m oc = Inr cs \<and> read fs oc = (log, Inr R) \<longrightarrow>
        (\<forall>i<length cs. e_maskoffset (cs ! i) = None \<longrightarrow> invalid_count (t_data R ! i) = 0))"
proof -
  have a: "(e_maskoffset (columns st ! j) \<noteq> None)
           = (tmasked T \<and> True \<in> set (cmask (tcolumns T ! j)))
         \<and> (\<forall>mo. e_maskoffset (columns st ! j) = Some mo \<longrightarrow>
               length (cmask (tcolumns T ! j)) = length (cdata (tcolumns T ! j))
               \<and> slice mo (length (cdata (tcolumns T ! j))) (concat (maskdatas st))
                   = cmask (tcolumns T ! j))"
    if p: "plan T = Inr st" and j: "j < length (tcolumns T)" for j
  proof -
    let ?m = "tmasked T" and ?cols = "tcolumns T"
    note inv = plan_Inr_inv[OF p]
    have e: "columns st ! j = expected_entry ?m ?cols j" using inv j by (simp add: plan_inv_def)
    have md: "concat (maskdatas st) = mask_data ?m ?cols" using inv by (simp add: plan_inv_def mask_data_def)
    have len: "\<forall>c\<in>set ?cols. has_mask ?m c \<longrightarrow> length (cmask c) = rows c"
      using inv by (simp add: plan_inv_def)
    show ?thesis
    proof (cases "has_mask ?m (?cols ! j)")
      case True
      have "length (cmask (?cols ! j)) = rows (?cols ! j)" using len True j by simp
      then show ?thesis using True mask_data_slice[OF j True len]
        by (simp add: e expected_entry_fields md) (simp add: has_mask_def rows_def)
    next
      case False
      then show ?thesis by (simp add: e expected_entry_fields) (simp add: has_mask_def)
    qed
  qed
  have b: "invalid_count (t_data R ! i) = 0"
    if "load_manifest fs = Inr m" "requested_columns m oc = Inr cs" "read fs oc = (log, Inr R)"
      "i < length cs" "e_maskoffset (cs ! i) = None" for i
    using read_no_maskoffset[OF that] by (simp add: invalid_count_def column_mask_def)
  show ?thesis using a b by blast
qed

theorem mask_offsets_witness:
  "e_maskoffset (columns pair_layout ! 1) = Some 2
   \<and> slice 2 2 (concat (maskdatas pair_layout)) = [True, False]
   \<and> e_maskoffset (columns pair_layout ! 2) = None
   \<and> invalid_count (t_data flux_read ! 0) = 0"
proof -
  note t = mask_offsets [of pair_table pair_layout "Some flux_dir" flux_manifest None
      "m_columns flux_manifest"
      "[''data.int32.npy'', ''data.text.json'', ''data.float64.npy'', ''mask.npy'']" flux_read]
  note w = t[THEN conjunct1, rule_format, OF pair_plan]
  note r = t[THEN conjunct2, rule_format, of 0]
  have w1: "e_maskoffset (columns pair_layout ! 1) = Some 2"
    using w[of 1] by (simp add: pair_layout_def pair_table_def)
  have "slice 2 2 (concat (maskdatas pair_layout)) = [True, False]"
    using w[of 1, THEN conjunct2, rule_format, OF _ w1]
    by (simp add: pair_table_def numeral_2_eq_2)
  moreover have "e_maskoffset (columns pair_layout ! 2) = None"
    using w[of 2] by (simp add: pair_layout_def pair_table_def)
  moreover have "invalid_count (t_data flux_read ! 0) = 0"
    using r flux_load flux_read_full
    by (simp add: requested_columns_def flux_read_def) (simp add: flux_manifest_def)
  ultimately show ?thesis using w1 by simp
qed

subsection \<open>C2: the manifest is committed last\<close>

text \<open>
  C2, as stated, fails in its consequence: \<^verbatim>\<open>write\<close> accepts an existing directory that
  contains the temporary manifest, whatever else it contains. When that directory has a
  file at the committed name already, the file is still there after a write that failed
  at its mask or data files.
\<close>

theorem committed_name_may_exist:
  "stale_dir ''bintable.json_'' \<noteq> None
   \<and> snd (write_table big_endian_table (Some stale_dir) (Some (Suc 0, True))) = Some OSError
   \<and> dir_of (fst (write_table big_endian_table (Some stale_dir) (Some (Suc 0, True))))
        ''bintable.json'' = Some FOther"
  by (simp add: write_table_def big_endian_plan write_actions_def datafile_action_def
      suffix_to_prefix stale_dir_def dir_of_def)

text \<open>
  C2, amended: for every write call that passes the planner, every file operation before
  the last writes a file other than \<^verbatim>\<open>bintable.json\<close> (the manifest under its temporary
  name, the mask file, the data files), and the last one renames the temporary manifest to
  \<^verbatim>\<open>bintable.json\<close>. Consequently, if an I/O failure occurs at one of the operations
  before the rename, the call fails and the committed name holds what it held before the
  call: no file if there was none (as in a directory the call created).
\<close>

theorem commit_is_last:
  assumes "plan T = Inr st"
  shows "(\<exists>ws. write_actions T st = ws @ [Rename ''bintable.json_'' ''bintable.json'']
            \<and> (\<forall>a\<in>set ws. \<exists>f c. a = WriteFile f c \<and> f \<noteq> ''bintable.json''))
    \<and> (k < length (write_actions T st) - 1 \<longrightarrow>
          snd (write_table T fs (Some (k, created))) \<noteq> None
          \<and> dir_of (fst (write_table T fs (Some (k, created)))) ''bintable.json''
              = dir_of fs ''bintable.json'')"
proof -
  note inv = plan_Inr_inv[OF assms]
  let ?ws = "WriteFile ''bintable.json_''
        (FManifest \<lparr>m_meta = tmeta T, m_masked = tmasked T, m_columns = columns st\<rparr>)
      # map (\<lambda>fc. WriteFile (fst fc) (snd fc)) (data_writes st)"
  have eq: "write_actions T st = ?ws @ [Rename ''bintable.json_'' ''bintable.json'']"
    by (rule write_actions_eq)
  have ws: "\<forall>a\<in>set ?ws. \<exists>f c. a = WriteFile f c \<and> f \<noteq> ''bintable.json''"
    using data_writes_names(1)[OF inv] by auto
  have 1: "\<exists>ws. write_actions T st = ws @ [Rename ''bintable.json_'' ''bintable.json'']
            \<and> (\<forall>a\<in>set ws. \<exists>f c. a = WriteFile f c \<and> f \<noteq> ''bintable.json'')"
    using eq ws by blast
  have 2: "snd (write_table T fs (Some (k, created))) \<noteq> None
          \<and> dir_of (fst (write_table T fs (Some (k, created)))) ''bintable.json''
              = dir_of fs ''bintable.json''"
    if k: "k < length (write_actions T st) - 1"
  proof -
    have k': "k < length ?ws" using k by (simp only: eq) simp
    have run: "snd (run_actions (Some (k, created)) (write_actions T st) d) \<noteq> None
         \<and> fst (run_actions (Some (k, created)) (write_actions T st) d) ''bintable.json''
             = d ''bintable.json''" for d
      unfolding eq by (rule run_actions_fault[OF ws k'])
    show ?thesis
    proof (cases fs)
      case None
      obtain d' r where ra: "run_actions (Some (k, created)) (write_actions T st) Map.empty = (d', r)"
        by (cases "run_actions (Some (k, created)) (write_actions T st) Map.empty")
      show ?thesis using None assms run[of Map.empty] ra
        by (simp add: write_table_def dir_of_def)
    next
      case (Some d)
      obtain d' r where ra: "run_actions (Some (k, created)) (write_actions T st) d = (d', r)"
        by (cases "run_actions (Some (k, created)) (write_actions T st) d")
      show ?thesis using Some assms run[of d] ra
        by (simp add: write_table_def dir_of_def)
    qed
  qed
  show ?thesis using 1 2 by blast
qed

theorem commit_is_last_witness:
  "snd (write_table big_endian_table None (Some (Suc 0, True))) = Some OSError
   \<and> dir_of (fst (write_table big_endian_table None (Some (Suc 0, True)))) ''bintable.json'' = None"
  using commit_is_last [OF big_endian_plan, of "Suc 0" None True]
  by (simp add: write_table_def big_endian_plan write_actions_def datafile_action_def
      suffix_to_prefix dir_of_def)

end
